theory Spec2Isabelle
  imports Complex_Main "HOL-Library.Word"
begin

section \<open>The Tensor engine of nntrainer: data model\<close>

text \<open>
  The embedding follows \<^verbatim>\<open>src/tensor.cpp\<close>. A tensor has three axes
  (batch, height, width) and owns a flat row-major buffer \<^verbatim>\<open>std::vector<float> data\<close>
  of \<^verbatim>\<open>len = height * width * batch\<close> elements.

  \<^item> The element type is a type parameter. The arithmetic the code performs on elements
    is taken from the syntactic classes \<open>zero\<close>, \<open>one\<close>, \<open>plus\<close>, \<open>times\<close>, \<open>inverse\<close> (division),
    \<open>abs\<close>, which assume no algebraic law, so a statement proved for every such type
    holds for binary32 arithmetic with its rounding as well. Concrete scenarios are
    evaluated at type \<open>real\<close>; every value occurring in them is a dyadic rational on which
    binary32 arithmetic is exact.
  \<^item> The C++ \<^verbatim>\<open>int\<close> is modelled as \<open>int\<close>. The sizes of a tensor whose buffer exists and the
    indices into it are far below \<open>2^31\<close>, so no computation on them overflows. Where the
    code multiplies sizes that are not those of an existing buffer, which is the result
    of \<^verbatim>\<open>dot\<close>, the product is checked against the range of \<^verbatim>\<open>int\<close>: signed overflow is
    undefined behaviour, and the embedding makes it the error \<open>IntOverflow\<close>.
  \<^item> \<^verbatim>\<open>operator[]\<close> of \<^verbatim>\<open>std::vector\<close> outside \<open>[0, size)\<close> is undefined behaviour; the
    embedding makes it the error \<open>OutOfRange\<close>. A failed \<^verbatim>\<open>assert\<close> aborts the program; the
    embedding makes it the error \<open>AssertFailure\<close>.
  \<^item> The build-time switch \<^verbatim>\<open>USE_BLAS\<close> is a boolean parameter of every function whose body
    has the \<^verbatim>\<open>#ifdef\<close>.
\<close>

datatype error = AssertFailure | OutOfRange | LengthError | InvalidArgument | IntOverflow

record 'a Tensor =
  height :: int
  width :: int
  batch :: int
  dim :: int
  len :: int
  data :: "'a list"

fun bindE :: "error + 'a \<Rightarrow> ('a \<Rightarrow> error + 'b) \<Rightarrow> error + 'b" where
  "bindE (Inl e) f = Inl e"
| "bindE (Inr x) f = f x"

text \<open>Reading and writing \<^verbatim>\<open>v[i]\<close> of a \<^verbatim>\<open>std::vector\<close>, bounds made explicit.\<close>

definition rd :: "'a list \<Rightarrow> int \<Rightarrow> error + 'a" where
  "rd v i = (if 0 \<le> i \<and> i < int (length v) then Inr (v ! nat i) else Inl OutOfRange)"

definition wr :: "'a list \<Rightarrow> int \<Rightarrow> 'a \<Rightarrow> error + 'a list" where
  "wr v i x = (if 0 \<le> i \<and> i < int (length v) then Inr (v[nat i := x]) else Inl OutOfRange)"

text \<open>\<^verbatim>\<open>for (i = a; i < n; ++i) body\<close>: the body maps the loop's state to an error or the next state.\<close>

function forE :: "int \<Rightarrow> int \<Rightarrow> (int \<Rightarrow> 's \<Rightarrow> error + 's) \<Rightarrow> 's \<Rightarrow> error + 's" where
  "forE i n body s =
     (if i < n then (case body i s of Inl e \<Rightarrow> Inl e | Inr s' \<Rightarrow> forE (i + 1) n body s')
      else Inr s)"
  by pat_completeness auto
termination
  by (relation "measure (\<lambda>(i, n, body, s). nat (n - i))") auto

text \<open>\<^verbatim>\<open>for (i = a; i < n; i += 4) body\<close>; the value of \<^verbatim>\<open>i\<close> after the loop is returned too,
  since \<^verbatim>\<open>multiply\<close> and \<^verbatim>\<open>divide\<close> use it.\<close>

function for4 :: "int \<Rightarrow> int \<Rightarrow> (int \<Rightarrow> 's \<Rightarrow> error + 's) \<Rightarrow> 's \<Rightarrow> error + (int \<times> 's)" where
  "for4 i n body s =
     (if i < n then (case body i s of Inl e \<Rightarrow> Inl e | Inr s' \<Rightarrow> for4 (i + 4) n body s')
      else Inr (i, s))"
  by pat_completeness auto
termination
  by (relation "measure (\<lambda>(i, n, body, s). nat (n - i))") auto

text \<open>The constructor \<^verbatim>\<open>Tensor(int batch, int height, int width)\<close>: a zero-filled buffer of
  \<^verbatim>\<open>len\<close> elements. A negative \<^verbatim>\<open>len\<close> converts to a huge \<^verbatim>\<open>size_t\<close> and the vector's
  constructor throws.\<close>

definition Tensor3 :: "int \<Rightarrow> int \<Rightarrow> int \<Rightarrow> error + ('a::zero) Tensor" where
  "Tensor3 b h w =
     (let l = h * w * b in
      if l < 0 then Inl LengthError
      else Inr \<lparr>height = h, width = w, batch = b, dim = 3, len = l, data = replicate (nat l) 0\<rparr>)"

text \<open>The class invariant every constructor establishes.\<close>

definition wf :: "'a Tensor \<Rightarrow> bool" where
  "wf t = (0 \<le> height t \<and> 0 \<le> width t \<and> 0 \<le> batch t \<and>
           len t = height t * width t * batch t \<and> int (length (data t)) = len t)"

section \<open>The numeric backend\<close>

text \<open>
  Modelled from the spec: the BLAS kernels \<^verbatim>\<open>cblas_scopy\<close>, \<^verbatim>\<open>cblas_saxpy\<close> and \<^verbatim>\<open>cblas_sasum\<close>
  are library code outside the repository. The spec describes them as \<open>copy(n, x, y)\<close>,
  \<open>scaled_add(n, alpha, x, y)\<close> computing \<open>y += alpha * x\<close>, and \<open>sum_abs(n, x)\<close>. They work on
  raw pointers: \<open>xo\<close> and \<open>yo\<close> are the offsets of the pointers into their vectors, all
  strides are 1, and an access outside a vector is \<open>OutOfRange\<close>.
\<close>

definition cblas_scopy :: "int \<Rightarrow> 'a list \<Rightarrow> int \<Rightarrow> 'a list \<Rightarrow> int \<Rightarrow> error + 'a list" where
  "cblas_scopy n x xo y yo =
     forE 0 n (\<lambda>i y. bindE (rd x (xo + i)) (\<lambda>a. wr y (yo + i) a)) y"

definition cblas_saxpy ::
  "int \<Rightarrow> 'a \<Rightarrow> 'a list \<Rightarrow> int \<Rightarrow> ('a::{plus,times}) list \<Rightarrow> int \<Rightarrow> error + 'a list" where
  "cblas_saxpy n alpha x xo y yo =
     forE 0 n (\<lambda>i y. bindE (rd x (xo + i)) (\<lambda>a. bindE (rd y (yo + i)) (\<lambda>b.
       wr y (yo + i) (alpha * a + b)))) y"

definition cblas_sasum :: "int \<Rightarrow> ('a::{zero,plus,abs}) list \<Rightarrow> int \<Rightarrow> error + 'a" where
  "cblas_sasum n x xo = forE 0 n (\<lambda>i s. bindE (rd x (xo + i)) (\<lambda>a. Inr (s + \<bar>a\<bar>))) 0"

text \<open>\<^verbatim>\<open>memset(v.data(), 0, sizeof(float) * v.size())\<close>: all bits zero is the float \<open>0.0\<close>.\<close>

definition memset0 :: "('a::zero) list \<Rightarrow> 'a list" where
  "memset0 v = replicate (length v) 0"

section \<open>Scalar operations\<close>

text \<open>\<^verbatim>\<open>Tensor Tensor::divide(float const &value)\<close>\<close>

definition divide_value ::
  "bool \<Rightarrow> ('a::{zero,one,plus,times,inverse}) Tensor \<Rightarrow> 'a \<Rightarrow> error + 'a Tensor" where
  "divide_value use_blas t v =
     bindE (Tensor3 (batch t) (height t) (width t)) (\<lambda>result.
       if use_blas then
         bindE (cblas_saxpy (len t) (1 / v) (data t) 0 (memset0 (data result)) 0) (\<lambda>d.
           Inr (result\<lparr>data := d\<rparr>))
       else
         bindE (forE 0 (len t) (\<lambda>k d. bindE (rd (data t) k) (\<lambda>a. wr d k (a / v))) (data result))
           (\<lambda>d. Inr (result\<lparr>data := d\<rparr>)))"

text \<open>\<^verbatim>\<open>Tensor Tensor::add(float const &value)\<close>. The fallback loop runs \<^verbatim>\<open>k\<close> up to \<^verbatim>\<open>batch\<close>.\<close>

definition add_value ::
  "bool \<Rightarrow> ('a::{zero,one,plus,times}) Tensor \<Rightarrow> 'a \<Rightarrow> error + 'a Tensor" where
  "add_value use_blas t v =
     bindE (Tensor3 (batch t) (height t) (width t)) (\<lambda>result.
       if use_blas then
         bindE (cblas_scopy (len t) (data t) 0 (data result) 0) (\<lambda>d.
         bindE (Tensor3 (batch t) (height t) (width t)) (\<lambda>tmp.
         bindE (forE 0 (len tmp) (\<lambda>i td. wr td i 1) (data tmp)) (\<lambda>td.
         bindE (cblas_saxpy (len t) v td 0 d 0) (\<lambda>d'.
           Inr (result\<lparr>data := d'\<rparr>)))))
       else
         bindE (forE 0 (batch t) (\<lambda>k d. bindE (rd (data t) k) (\<lambda>a. wr d k (a + v))) (data result))
           (\<lambda>d. Inr (result\<lparr>data := d\<rparr>)))"

section \<open>Reduction\<close>

text \<open>\<^verbatim>\<open>Tensor Tensor::sum() const\<close>: "This is to sum the Tensor data according to the batch.
  Therefore the result has M(batch, 1, 1) dimension." The fallback path indexes the result
  with \<^verbatim>\<open>id = k * width * height\<close>; \<^verbatim>\<open>ret.data[id] += x\<close> reads and writes \<^verbatim>\<open>ret.data[id]\<close>.\<close>

definition sum_batch :: "bool \<Rightarrow> ('a::{zero,plus,abs}) Tensor \<Rightarrow> error + 'a Tensor" where
  "sum_batch use_blas t =
     bindE (Tensor3 (batch t) 1 1) (\<lambda>ret.
       if use_blas then
         bindE (forE 0 (batch t) (\<lambda>k rd0.
                  bindE (cblas_sasum (width t * height t) (data t) (k * width t * height t))
                    (\<lambda>s. wr rd0 k s)) (data ret))
           (\<lambda>d. Inr (ret\<lparr>data := d\<rparr>))
       else
         bindE (forE 0 (batch t) (\<lambda>k rd0.
                  let id = k * width t * height t in
                  bindE (wr rd0 id 0) (\<lambda>rd1.
                    forE 0 (height t * width t) (\<lambda>i rd2.
                      bindE (rd rd2 id) (\<lambda>acc. bindE (rd (data t) (id + i)) (\<lambda>a.
                        wr rd2 id (acc + a)))) rd1)) (data ret))
           (\<lambda>d. Inr (ret\<lparr>data := d\<rparr>)))"

section \<open>Binary elementwise operations\<close>

text \<open>The statement \<^verbatim>\<open>result.data[p] = this->data[p] op m.data[q]\<close>.\<close>

definition assign2 ::
  "('a \<Rightarrow> 'a \<Rightarrow> 'a) \<Rightarrow> 'a list \<Rightarrow> 'a list \<Rightarrow> int \<Rightarrow> int \<Rightarrow> 'a list \<Rightarrow> error + 'a list" where
  "assign2 f x y p q d = bindE (rd x p) (\<lambda>a. bindE (rd y q) (\<lambda>b. wr d p (f a b)))"

text \<open>\<^verbatim>\<open>Tensor Tensor::add(Tensor const &m) const\<close>\<close>

definition add_Tensor ::
  "bool \<Rightarrow> ('a::{zero,one,plus,times}) Tensor \<Rightarrow> 'a Tensor \<Rightarrow> error + 'a Tensor" where
  "add_Tensor use_blas t m =
     (if \<not> (height t = height m \<and> width t = width m) then Inl AssertFailure
      else bindE (Tensor3 (batch t) (height t) (width t)) (\<lambda>result.
        bindE
          (if use_blas then
             bindE (cblas_scopy (len t) (data t) 0 (data result) 0) (\<lambda>d.
               let size = width t * height t in
               if batch m = 1 then
                 forE 0 (batch t) (\<lambda>k d. cblas_saxpy size 1 (data m) 0 d (k * size)) d
               else cblas_saxpy (len t) 1 (data m) 0 d 0)
           else if batch m = 1 then
             forE 0 (batch t) (\<lambda>k d.
               forE 0 (len m) (\<lambda>i d.
                 let j = k * len m in assign2 (+) (data t) (data m) (j + i) i d) d) (data result)
           else
             forE 0 (len t) (\<lambda>k d. assign2 (+) (data t) (data m) k k d) (data result))
          (\<lambda>d. Inr (result\<lparr>data := d\<rparr>))))"

text \<open>\<^verbatim>\<open>Tensor Tensor::subtract(Tensor const &m) const\<close>. Only the BLAS path asserts
  \<^verbatim>\<open>batch == m.batch\<close>, in its second branch.\<close>

definition subtract_Tensor ::
  "bool \<Rightarrow> ('a::{zero,one,plus,minus,uminus,times}) Tensor \<Rightarrow> 'a Tensor \<Rightarrow> error + 'a Tensor" where
  "subtract_Tensor use_blas t m =
     (if \<not> (height t = height m \<and> width t = width m) then Inl AssertFailure
      else bindE (Tensor3 (batch t) (height t) (width t)) (\<lambda>result.
        bindE
          (if use_blas then
             bindE (cblas_scopy (len t) (data t) 0 (data result) 0) (\<lambda>d.
               let size = width t * height t; alpha = - 1 in
               if batch m = 1 then
                 forE 0 (batch t) (\<lambda>k d. cblas_saxpy size alpha (data m) 0 d (k * size)) d
               else if batch t \<noteq> batch m then Inl AssertFailure
               else cblas_saxpy (len t) alpha (data m) 0 d 0)
           else if batch m = 1 then
             forE 0 (batch t) (\<lambda>k d.
               forE 0 (len m) (\<lambda>i d.
                 let j = k * len m in assign2 (-) (data t) (data m) (j + i) i d) d) (data result)
           else
             forE 0 (len t) (\<lambda>k d. assign2 (-) (data t) (data m) k k d) (data result))
          (\<lambda>d. Inr (result\<lparr>data := d\<rparr>))))"

text \<open>C++ integer division truncates towards zero.\<close>

definition cdiv :: "int \<Rightarrow> int \<Rightarrow> int" where
  "cdiv a b = sgn a * sgn b * (\<bar>a\<bar> div \<bar>b\<bar>)"

text \<open>The body of the four-way unrolled loops of \<^verbatim>\<open>multiply\<close> and \<^verbatim>\<open>divide\<close>:
  four assignments at \<^verbatim>\<open>b + i + 0\<close> ... \<^verbatim>\<open>b + i + 3\<close>, the right operand read at
  \<^verbatim>\<open>i + 0\<close> ... \<^verbatim>\<open>i + 3\<close>.\<close>

definition unrolled4 ::
  "('a \<Rightarrow> 'a \<Rightarrow> 'a) \<Rightarrow> 'a list \<Rightarrow> 'a list \<Rightarrow> int \<Rightarrow> int \<Rightarrow> 'a list \<Rightarrow> error + 'a list" where
  "unrolled4 f x y b i d =
     bindE (assign2 f x y (b + i + 0) (i + 0) d) (\<lambda>d.
     bindE (assign2 f x y (b + i + 1) (i + 1) d) (\<lambda>d.
     bindE (assign2 f x y (b + i + 2) (i + 2) d) (\<lambda>d.
            assign2 f x y (b + i + 3) (i + 3) d)))"

text \<open>\<^verbatim>\<open>Tensor Tensor::multiply(Tensor const &m) const\<close>: the tail loop starts at \<^verbatim>\<open>j = i\<close>.\<close>

definition multiply_Tensor :: "('a::{zero,times}) Tensor \<Rightarrow> 'a Tensor \<Rightarrow> error + 'a Tensor" where
  "multiply_Tensor t m =
     (if \<not> (height t = height m \<and> width t = width m) then Inl AssertFailure
      else bindE (Tensor3 (batch t) (height t) (width t)) (\<lambda>result.
        let end = cdiv (len t) 4; e = cdiv (width t * height t) 4 in
        bindE
          (if batch m = 1 then
             forE 0 (batch t) (\<lambda>k d.
               let b = k * width t * height t in
               bindE (for4 0 (e * 4) (unrolled4 (*) (data t) (data m) b) d) (\<lambda>(i, d).
                 forE i (width t * height t) (\<lambda>j d.
                   assign2 (*) (data t) (data m) (b + j) j d) d)) (data result)
           else
             bindE (for4 0 (end * 4) (unrolled4 (*) (data t) (data m) 0) (data result)) (\<lambda>(i, d).
               forE i (len t) (\<lambda>j d. assign2 (*) (data t) (data m) j j d) d))
          (\<lambda>d. Inr (result\<lparr>data := d\<rparr>))))"

text \<open>\<^verbatim>\<open>Tensor Tensor::divide(Tensor const &m) const\<close>: the tail loop starts at \<^verbatim>\<open>j = i - 1\<close>.\<close>

definition divide_Tensor :: "('a::{zero,inverse}) Tensor \<Rightarrow> 'a Tensor \<Rightarrow> error + 'a Tensor" where
  "divide_Tensor t m =
     (if \<not> (height t = height m \<and> width t = width m) then Inl AssertFailure
      else bindE (Tensor3 (batch t) (height t) (width t)) (\<lambda>result.
        let end = cdiv (len t) 4; e = cdiv (width t * height t) 4 in
        bindE
          (if batch m = 1 then
             forE 0 (batch t) (\<lambda>k d.
               let b = k * width t * height t in
               bindE (for4 0 (e * 4) (unrolled4 (/) (data t) (data m) b) d) (\<lambda>(i, d).
                 forE (i - 1) (width t * height t) (\<lambda>j d.
                   assign2 (/) (data t) (data m) (b + j) j d) d)) (data result)
           else
             bindE (for4 0 (end * 4) (unrolled4 (/) (data t) (data m) 0) (data result)) (\<lambda>(i, d).
               forE (i - 1) (len t) (\<lambda>j d. assign2 (/) (data t) (data m) j j d) d))
          (\<lambda>d. Inr (result\<lparr>data := d\<rparr>))))"

section \<open>Contraction\<close>

text \<open>
  Modelled from the spec: \<^verbatim>\<open>cblas_sgemm\<close> is library code outside the repository. The spec
  describes it as \<open>matmul(M, N, K, alpha, A, B, beta, C)\<close> computing
  \<open>C = alpha * A * B + beta * C\<close> for row-major dense matrices. The call is always
  \<^verbatim>\<open>CblasRowMajor, CblasNoTrans, CblasNoTrans\<close>; \<open>ao\<close>, \<open>bo\<close>, \<open>co\<close> are the offsets of the three
  pointers into their vectors and \<open>lda\<close>, \<open>ldb\<close>, \<open>ldc\<close> the row strides. The inner product is
  accumulated from \<open>0\<close> in index order; \<open>sgemm_cell\<close> computes one entry of \<open>C\<close>.
\<close>

definition sgemm_cell ::
  "int \<Rightarrow> 'a \<Rightarrow> 'a list \<Rightarrow> int \<Rightarrow> int \<Rightarrow> 'a list \<Rightarrow> int \<Rightarrow> int \<Rightarrow> 'a \<Rightarrow> int \<Rightarrow> int \<Rightarrow>
   int \<Rightarrow> int \<Rightarrow> ('a::{zero,plus,times}) list \<Rightarrow> error + 'a list" where
  "sgemm_cell K alpha A ao lda B bo ldb beta co ldc i j C =
     bindE (forE 0 K (\<lambda>l s. bindE (rd A (ao + i * lda + l)) (\<lambda>a.
              bindE (rd B (bo + l * ldb + j)) (\<lambda>b. Inr (s + a * b)))) 0) (\<lambda>s.
     bindE (rd C (co + i * ldc + j)) (\<lambda>c.
       wr C (co + i * ldc + j) (alpha * s + beta * c)))"

definition cblas_sgemm ::
  "int \<Rightarrow> int \<Rightarrow> int \<Rightarrow> 'a \<Rightarrow> 'a list \<Rightarrow> int \<Rightarrow> int \<Rightarrow> 'a list \<Rightarrow> int \<Rightarrow> int \<Rightarrow> 'a \<Rightarrow>
   ('a::{zero,plus,times}) list \<Rightarrow> int \<Rightarrow> int \<Rightarrow> error + 'a list" where
  "cblas_sgemm M N K alpha A ao lda B bo ldb beta C co ldc =
     forE 0 M (\<lambda>i. forE 0 N (\<lambda>j. sgemm_cell K alpha A ao lda B bo ldb beta co ldc i j)) C"

text \<open>The result of \<^verbatim>\<open>dot\<close> is built by \<^verbatim>\<open>Tensor result(batch, height, mwidth)\<close>, whose sizes are
  not those of an existing buffer: the constructor's \<^verbatim>\<open>height * width * batch\<close> is evaluated
  in \<^verbatim>\<open>int\<close>, from left to right, and either product may leave the range of \<^verbatim>\<open>int\<close>.\<close>

definition INT_MAX :: int where
  "INT_MAX = 2147483647"

definition mul_int :: "int \<Rightarrow> int \<Rightarrow> error + int" where
  "mul_int a b =
     (if - INT_MAX - 1 \<le> a * b \<and> a * b \<le> INT_MAX then Inr (a * b) else Inl IntOverflow)"

definition Tensor3_checked :: "int \<Rightarrow> int \<Rightarrow> int \<Rightarrow> error + ('a::zero) Tensor" where
  "Tensor3_checked b h w =
     bindE (mul_int h w) (\<lambda>hw. bindE (mul_int hw b) (\<lambda>l. Tensor3 b h w))"

text \<open>\<^verbatim>\<open>Tensor Tensor::dot(Tensor const &m) const\<close>: "If the batch size of m is one, then it is
  reused for every calculation along with batch". The fallback loops thread the
  accumulator \<^verbatim>\<open>float w\<close> and the result buffer; \<open>moff k\<close> is the offset of the right
  matrix used for sample \<open>k\<close> (\<^verbatim>\<open>0\<close> in the first branch, \<^verbatim>\<open>k * width * mwidth\<close> in the second).
  \<open>dot_cell\<close> is the body of the \<^verbatim>\<open>j\<close> loop: the \<^verbatim>\<open>h\<close> loop accumulating into \<^verbatim>\<open>w\<close>, the
  store of \<^verbatim>\<open>w\<close>, and \<^verbatim>\<open>w = 0.0\<close>.\<close>

definition dot_cell ::
  "('a::{zero,plus,times}) Tensor \<Rightarrow> 'a Tensor \<Rightarrow> int \<Rightarrow> (int \<Rightarrow> int) \<Rightarrow> int \<Rightarrow> int \<Rightarrow> int \<Rightarrow>
   'a \<times> 'a list \<Rightarrow> error + 'a \<times> 'a list" where
  "dot_cell t m mwidth moff k i j = (\<lambda>(w, d).
     bindE (forE 0 (width t) (\<lambda>h w.
              bindE (rd (data t) (k * height t * width t + i * width t + h)) (\<lambda>a.
              bindE (rd (data m) (moff k + h * mwidth + j)) (\<lambda>b. Inr (w + a * b)))) w) (\<lambda>w.
     bindE (wr d (k * height t * mwidth + i * mwidth + j) w) (\<lambda>d.
       Inr (0, d))))"

definition dot_loops ::
  "('a::{zero,plus,times}) Tensor \<Rightarrow> 'a Tensor \<Rightarrow> int \<Rightarrow> (int \<Rightarrow> int) \<Rightarrow> 'a \<times> 'a list \<Rightarrow>
   error + 'a \<times> 'a list" where
  "dot_loops t m mwidth moff s =
     forE 0 (batch t) (\<lambda>k. forE 0 (height t) (\<lambda>i. forE 0 mwidth (\<lambda>j.
       dot_cell t m mwidth moff k i j))) s"

definition dot :: "bool \<Rightarrow> ('a::{zero,one,plus,times}) Tensor \<Rightarrow> 'a Tensor \<Rightarrow> error + 'a Tensor" where
  "dot use_blas t m =
     (if width t \<noteq> height m then Inl AssertFailure
      else
        let mwidth = width m in
        bindE (Tensor3_checked (batch t) (height t) mwidth) (\<lambda>result.
        bindE
          (if use_blas then
             (let alpha_dgemm = 1; beta_dgemm = 1 in
             if batch m = 1 then
               forE 0 (batch t) (\<lambda>k d.
                 let i = k * width t * height t; ii = k * height t * mwidth in
                 cblas_sgemm (height t) mwidth (width t) alpha_dgemm (data t) i (width t)
                   (data m) 0 mwidth beta_dgemm d ii mwidth) (data result)
             else
               forE 0 (batch t) (\<lambda>k d.
                 let i = k * width t * height t; j = k * width m * height m;
                     ii = k * height t * mwidth in
                 cblas_sgemm (height t) mwidth (width t) alpha_dgemm (data t) i (width t)
                   (data m) j mwidth beta_dgemm d ii mwidth) (data result))
           else
             bindE (if batch m = 1 then dot_loops t m mwidth (\<lambda>k. 0) (0, data result)
                    else dot_loops t m mwidth (\<lambda>k. k * width t * mwidth) (0, data result))
               (\<lambda>(w, d). Inr d))
          (\<lambda>d. Inr (result\<lparr>data := d\<rparr>))))"

section \<open>Average\<close>

text \<open>\<^verbatim>\<open>Tensor Tensor::average() const\<close>: "This calculates average value according to the
  batch direction. That is the why it has (1, height, width) dimension." A tensor of
  batch 1 is returned as it is. \<open>average_cell\<close> is the body of the \<^verbatim>\<open>j\<close> loop; the
  conversion \<^verbatim>\<open>(float)batch\<close> is the parameter \<open>to_float\<close>.\<close>

definition average_cell ::
  "(int \<Rightarrow> 'a) \<Rightarrow> ('a::{zero,plus,inverse}) Tensor \<Rightarrow> int \<Rightarrow> int \<Rightarrow> 'a list \<Rightarrow> error + 'a list" where
  "average_cell to_float t i j d =
     bindE (wr d (i * width t + j) 0) (\<lambda>d.
     bindE (forE 0 (batch t) (\<lambda>k d.
              bindE (rd d (i * width t + j)) (\<lambda>acc.
              bindE (rd (data t) (k * width t * height t + i * width t + j)) (\<lambda>a.
                wr d (i * width t + j) (acc + a)))) d) (\<lambda>d.
     bindE (rd d (i * width t + j)) (\<lambda>s.
       wr d (i * width t + j) (s / to_float (batch t)))))"

definition average :: "(int \<Rightarrow> 'a) \<Rightarrow> ('a::{zero,plus,inverse}) Tensor \<Rightarrow> error + 'a Tensor" where
  "average to_float t =
     (if batch t = 1 then Inr t
      else bindE (Tensor3 1 (height t) (width t)) (\<lambda>result.
        bindE (forE 0 (height t) (\<lambda>i. forE 0 (width t) (\<lambda>j. average_cell to_float t i j))
                 (data result))
          (\<lambda>d. Inr (result\<lparr>data := d\<rparr>))))"

section \<open>The activation layer's softmax derivative\<close>

text \<open>
  \<^verbatim>\<open>ActivationLayer::softmaxPrime\<close> works on the four-axis tensor declared in \<^verbatim>\<open>tensor.h\<close>:
  a \<^verbatim>\<open>TensorDim\<close> (batch, channel, height, width) and a buffer reached through
  \<^verbatim>\<open>getData()\<close>; strides and the contiguity flag are not used by it and are left out of
  the record. The \<^verbatim>\<open>unsigned int\<close> sizes are natural numbers and the index arithmetic is
  done in \<open>int\<close>: a buffer that exists has fewer than \<open>2^31\<close> elements, so nothing wraps.
  The three tensors are separate values: the output buffer is assumed not to alias the
  other two.

  Modelled from the spec: \<^verbatim>\<open>TensorDim::getDataLen\<close> and the constructor
  \<^verbatim>\<open>Tensor(const TensorDim &)\<close> are not among the sources. The spec gives the length as
  \<open>batch * channel * height * width\<close> and says that the buffer is allocated at
  construction with that many elements; what a fresh buffer holds is the parameter
  \<open>fresh\<close>. The default \<^verbatim>\<open>TensorDim()\<close> is the parameter \<open>TensorDim0\<close>. The locals
  \<^verbatim>\<open>batch\<close>, \<^verbatim>\<open>channel\<close>, \<^verbatim>\<open>height\<close>, \<^verbatim>\<open>width\<close> carry a prime, the plain names being the
  fields of the three-axis tensor.
\<close>

record TensorDim =
  d_batch :: nat
  d_channel :: nat
  d_height :: nat
  d_width :: nat

record 'a Tensor4 =
  t_dim :: TensorDim
  t_data :: "'a list"

definition getDataLen :: "TensorDim \<Rightarrow> nat" where
  "getDataLen d = d_batch d * d_channel d * d_height d * d_width d"

text \<open>\<^verbatim>\<open>bool uninitialized() const { return length() == 0; }\<close>\<close>

definition uninitialized :: "'a Tensor4 \<Rightarrow> bool" where
  "uninitialized t = (getDataLen (t_dim t) = 0)"

definition Tensor_of_dim :: "'a \<Rightarrow> TensorDim \<Rightarrow> 'a Tensor4" where
  "Tensor_of_dim fresh d = \<lparr>t_dim = d, t_data = replicate (getDataLen d) fresh\<rparr>"

text \<open>The body of the \<^verbatim>\<open>j\<close> loop: the \<^verbatim>\<open>l\<close> loop accumulating \<^verbatim>\<open>sum\<close>, then \<^verbatim>\<open>pp[I + j] = sum\<close>.\<close>

definition softmaxPrime_cell ::
  "bool \<Rightarrow> 'a list \<Rightarrow> 'a list \<Rightarrow> int \<Rightarrow> int \<Rightarrow> int \<Rightarrow>
   ('a::{zero,one,plus,minus,uminus,times}) list \<Rightarrow> error + 'a list" where
  "softmaxPrime_cell is_derivative xp d width' I j pp =
     bindE (forE 0 width' (\<lambda>l sum.
       bindE (if j = l then
                bindE (rd xp (I + l)) (\<lambda>xl. bindE (rd xp (I + j)) (\<lambda>xj. Inr (xl * (1 - xj))))
              else
                bindE (rd xp (I + l)) (\<lambda>xl. bindE (rd xp (I + j)) (\<lambda>xj. Inr ((- xl) * xj)))) (\<lambda>val.
       bindE (if is_derivative then bindE (rd d (I + l)) (\<lambda>dl. Inr (val * dl)) else Inr val) (\<lambda>val.
         Inr (sum + val)))) 0) (\<lambda>sum.
     wr pp (I + j) sum)"

definition softmaxPrime ::
  "TensorDim \<Rightarrow> 'a \<Rightarrow> ('a::{zero,one,plus,minus,uminus,times}) Tensor4 \<Rightarrow> 'a Tensor4 \<Rightarrow> 'a Tensor4 \<Rightarrow>
   error + 'a Tensor4" where
  "softmaxPrime TensorDim0 fresh x output derivative =
     (let batch' = int (d_batch (t_dim x)); channel' = int (d_channel (t_dim x));
          height' = int (d_height (t_dim x)); width' = int (d_width (t_dim x));
          output' = (if uninitialized output then Tensor_of_dim fresh (t_dim x) else output);
          xp = t_data x; d = t_data derivative;
          is_derivative = (t_dim derivative \<noteq> TensorDim0)
      in bindE
           (forE 0 batch' (\<lambda>k. let K = k * channel' * height' * width' in
              forE 0 channel' (\<lambda>c. let C = K + c * height' * width' in
                forE 0 height' (\<lambda>i. let I = C + i * width' in
                  forE 0 width' (\<lambda>j. softmaxPrime_cell is_derivative xp d width' I j))))
              (t_data output'))
           (\<lambda>pp. Inr (output'\<lparr>t_data := pp\<rparr>)))"

section \<open>Softmax\<close>











section \<open>Raw file format\<close>

text \<open>
  \<^verbatim>\<open>save\<close> and \<^verbatim>\<open>read\<close> move the object representation of each \<^verbatim>\<open>float\<close>,
  \<^verbatim>\<open>sizeof(float) = 4\<close> bytes, between the buffer and a file stream. For these two functions
  an element is its bit pattern, a \<open>32 word\<close>, and \<open>float_bytes\<close> lists its bytes in memory
  order, which is little-endian (the byte order the spec gives for the file).

  A stream is its state flag and its bytes: for an output stream the bytes written so far,
  for an input stream the bytes not yet read. \<^verbatim>\<open>ostream::write\<close> appends to a good stream
  and does nothing to a failed one. \<^verbatim>\<open>istream::read\<close> of four bytes does nothing on a failed
  stream; on a good stream with fewer than four bytes left it stores the bytes there are
  over the first bytes of the destination and sets the fail state.
\<close>

unbundle bit_operations_syntax

record ofstream =
  o_good :: bool
  o_bytes :: "8 word list"

record ifstream =
  i_good :: bool
  i_bytes :: "8 word list"

definition float_bytes :: "32 word \<Rightarrow> 8 word list" where
  "float_bytes w = [ucast w, ucast (drop_bit 8 w), ucast (drop_bit 16 w), ucast (drop_bit 24 w)]"

definition bytes_float :: "8 word list \<Rightarrow> 32 word" where
  "bytes_float bs = ucast (bs ! 0) OR push_bit 8 (ucast (bs ! 1)) OR push_bit 16 (ucast (bs ! 2))
                    OR push_bit 24 (ucast (bs ! 3))"

definition ostream_write :: "ofstream \<Rightarrow> 8 word list \<Rightarrow> ofstream" where
  "ostream_write s bs = (if o_good s then s\<lparr>o_bytes := o_bytes s @ bs\<rparr> else s)"

definition istream_read4 :: "ifstream \<Rightarrow> 32 word \<Rightarrow> 32 word \<times> ifstream" where
  "istream_read4 s old =
     (if \<not> i_good s then (old, s)
      else if 4 \<le> length (i_bytes s)
        then (bytes_float (take 4 (i_bytes s)), s\<lparr>i_bytes := drop 4 (i_bytes s)\<rparr>)
      else (bytes_float (i_bytes s @ drop (length (i_bytes s)) (float_bytes old)),
            \<lparr>i_good = False, i_bytes = []\<rparr>))"

text \<open>\<^verbatim>\<open>void Tensor::save(std::ofstream &file)\<close>\<close>

definition save :: "32 word Tensor \<Rightarrow> ofstream \<Rightarrow> error + ofstream" where
  "save t file =
     forE 0 (len t) (\<lambda>i file. bindE (rd (data t) i) (\<lambda>x. Inr (ostream_write file (float_bytes x)))) file"

text \<open>\<^verbatim>\<open>void Tensor::read(std::ifstream &file)\<close>: the tensor with its buffer overwritten,
  and the stream after the reads.\<close>

definition read :: "32 word Tensor \<Rightarrow> ifstream \<Rightarrow> error + 32 word Tensor \<times> ifstream" where
  "read t file =
     bindE (forE 0 (len t) (\<lambda>i (d, file).
              bindE (rd d i) (\<lambda>old.
                let (v, file') = istream_read4 file old in
                bindE (wr d i v) (\<lambda>d'. Inr (d', file')))) (data t, file))
       (\<lambda>(d, file'). Inr (t\<lparr>data := d\<rparr>, file'))"

section \<open>Reference definitions and notions used in the proofs\<close>

text \<open>A buffer after a loop has rewritten the positions \<open>lo \<le> p < hi\<close>, position \<open>p\<close> from
  its old value \<open>v\<close> to \<open>g p v\<close>.\<close>

definition upd_range :: "int \<Rightarrow> int \<Rightarrow> (int \<Rightarrow> 'a \<Rightarrow> 'a) \<Rightarrow> 'a list \<Rightarrow> 'a list" where
  "upd_range lo hi g d =
     map (\<lambda>p. if lo \<le> int p \<and> int p < hi then g (int p) (d ! p) else d ! p) [0..<length d]"

text \<open>The \<open>k\<close>-th batch slice of a tensor, and "adding one batch row independently to each
  batch slice" in the words of the spec.\<close>

definition batch_slice :: "'a Tensor \<Rightarrow> nat \<Rightarrow> 'a list" where
  "batch_slice t k =
     take (nat (height t * width t)) (drop (k * nat (height t * width t)) (data t))"

definition add_row_to_each_batch :: "('a::plus) Tensor \<Rightarrow> 'a list \<Rightarrow> 'a list" where
  "add_row_to_each_batch t row =
     concat (map (\<lambda>k. map2 (+) (batch_slice t k) row) [0..<nat (batch t)])"

text \<open>A result has the shape of the left operand.\<close>

definition same_shape :: "'a Tensor \<Rightarrow> 'a Tensor \<Rightarrow> bool" where
  "same_shape r t = (height r = height t \<and> width r = width t \<and> batch r = batch t \<and>
                     len r = len t \<and> length (data r) = length (data t))"

text \<open>The legality rule in the words of the spec (section 4.2), on the three axes the code
  has: on each axis the two sizes are equal or the other operand's size is 1.\<close>

definition spec_broadcast_legal :: "'a Tensor \<Rightarrow> 'a Tensor \<Rightarrow> bool" where
  "spec_broadcast_legal t m =
     ((batch t = batch m \<or> batch m = 1) \<and> (height t = height m \<or> height m = 1) \<and>
      (width t = width m \<or> width m = 1))"

text \<open>Adding blocks to a buffer: \<open>put_block off blk d\<close> is \<open>d\<close> with the block \<open>blk\<close> written
  at offset \<open>off\<close>.\<close>

definition put_block :: "nat \<Rightarrow> 'a list \<Rightarrow> 'a list \<Rightarrow> 'a list" where
  "put_block off blk d = take off d @ blk @ drop (off + length blk) d"






text \<open>The mean of all elements, in the words of claim C7, and the mean at each position
  over the batch axis: position \<open>p\<close> of the result is the sum over \<open>k\<close> of position \<open>p\<close> of
  batch slice \<open>k\<close>, accumulated from \<open>0\<close> in index order, divided by the batch size.\<close>

definition mean_all :: "real Tensor \<Rightarrow> real" where
  "mean_all t = sum_list (data t) / real (length (data t))"

definition batch_mean :: "(int \<Rightarrow> 'a) \<Rightarrow> ('a::{zero,plus,inverse}) Tensor \<Rightarrow> 'a list" where
  "batch_mean to_float t =
     map (\<lambda>p. foldl (\<lambda>acc k. acc + batch_slice t k ! p) 0 [0..<nat (batch t)] / to_float (batch t))
       [0..<nat (height t * width t)]"

text \<open>The value \<^verbatim>\<open>softmaxPrime\<close> stores at index \<open>j\<close> of the row that starts at \<open>I\<close>, accumulated
  from \<open>0\<close> in index order, and the same value addressed by the flat position \<open>p = I + j\<close>.\<close>

definition jvp_entry :: "('a::{zero,one,plus,minus,uminus,times}) list \<Rightarrow> 'a list \<Rightarrow> nat \<Rightarrow> nat \<Rightarrow> nat \<Rightarrow> 'a" where
  "jvp_entry xp d W I j =
     foldl (\<lambda>sum l. sum + (if j = l then xp ! (I + l) * (1 - xp ! (I + j))
                               else (- xp ! (I + l)) * xp ! (I + j)) * d ! (I + l)) 0 [0..<W]"

definition jvp_at :: "('a::{zero,one,plus,minus,uminus,times}) list \<Rightarrow> 'a list \<Rightarrow> nat \<Rightarrow> nat \<Rightarrow> 'a" where
  "jvp_at xp d W p = jvp_entry xp d W (p - p mod W) (p mod W)"

text \<open>The Jacobian-vector product in the words of claim C8, over a batch row: batch row \<open>k\<close>
  is the run of \<open>F = channel * height * width\<close> features of batch entry \<open>k\<close>, as in the
  forward \<^verbatim>\<open>ActivationLayer::softmax\<close>, and \<open>l\<close> ranges over all of it.\<close>

definition jvp_batch_row :: "real list \<Rightarrow> real list \<Rightarrow> nat \<Rightarrow> nat \<Rightarrow> nat \<Rightarrow> real" where
  "jvp_batch_row x d F k j =
     sum_list (map (\<lambda>l. (if l = j then x ! (k * F + l) * (1 - x ! (k * F + j))
                          else - x ! (k * F + l) * x ! (k * F + j)) * d ! (k * F + l)) [0..<F])"












section \<open>Concrete tensors\<close>

text \<open>The \<open>(2, 1, 3)\<close> tensor \<open>[[1, 2, 3], [4, 5, 6]]\<close> of the spec's scenario.\<close>

definition T213 :: "real Tensor" where
  "T213 = \<lparr>height = 1, width = 3, batch = 2, dim = 3, len = 6, data = [1, 2, 3, 4, 5, 6]\<rparr>"

text \<open>A \<open>(1, 1, 2)\<close> tensor, a \<open>(1, 1, 1)\<close> tensor holding a negative number, a \<open>(1, 1, 3)\<close>
  tensor and a \<open>(2, 1, 2)\<close> tensor.\<close>

definition T112 :: "real Tensor" where
  "T112 = \<lparr>height = 1, width = 2, batch = 1, dim = 3, len = 2, data = [1, 2]\<rparr>"

definition T111 :: "real Tensor" where
  "T111 = \<lparr>height = 1, width = 1, batch = 1, dim = 3, len = 1, data = [- 1]\<rparr>"

definition T113 :: "real Tensor" where
  "T113 = \<lparr>height = 1, width = 3, batch = 1, dim = 3, len = 3, data = [1, 2, 4]\<rparr>"

definition T212 :: "real Tensor" where
  "T212 = \<lparr>height = 1, width = 2, batch = 2, dim = 3, len = 4, data = [1, 2, 3, 4]\<rparr>"

text \<open>A \<open>(1, 2, 3)\<close> tensor.\<close>

definition T123 :: "real Tensor" where
  "T123 = \<lparr>height = 2, width = 3, batch = 1, dim = 3, len = 6, data = [1, 2, 3, 4, 5, 6]\<rparr>"




text \<open>Four-axis tensors of dimension \<open>(2, 1, 1, 2)\<close>: a softmax output and an upstream
  gradient; an uninitialized tensor; an all-zero default dimension.\<close>

definition D0 :: TensorDim where
  "D0 = \<lparr>d_batch = 0, d_channel = 0, d_height = 0, d_width = 0\<rparr>"

definition X4 :: "real Tensor4" where
  "X4 = \<lparr>t_dim = \<lparr>d_batch = 2, d_channel = 1, d_height = 1, d_width = 2\<rparr>,
         t_data = [1 / 4, 3 / 4, 1 / 2, 1 / 2]\<rparr>"

definition G4 :: "real Tensor4" where
  "G4 = \<lparr>t_dim = \<lparr>d_batch = 2, d_channel = 1, d_height = 1, d_width = 2\<rparr>,
         t_data = [1, 2, 3, 5]\<rparr>"

definition O4 :: "real Tensor4" where
  "O4 = \<lparr>t_dim = D0, t_data = []\<rparr>"

text \<open>A softmax output and an upstream gradient of dimension \<open>(1, 1, 2, 1)\<close>: one batch row of
  two features in two rows of width 1.\<close>

definition X21 :: "real Tensor4" where
  "X21 = \<lparr>t_dim = \<lparr>d_batch = 1, d_channel = 1, d_height = 2, d_width = 1\<rparr>,
          t_data = [1 / 4, 3 / 4]\<rparr>"

definition G21 :: "real Tensor4" where
  "G21 = \<lparr>t_dim = \<lparr>d_batch = 1, d_channel = 1, d_height = 2, d_width = 1\<rparr>, t_data = [1, 2]\<rparr>"

text \<open>A \<open>(1, 1, 3)\<close> tensor of the bit patterns of \<open>1.0\<close>, \<open>-2.0\<close> and a NaN, and a zeroed tensor
  of the same shape.\<close>

definition W3 :: "32 word Tensor" where
  "W3 = \<lparr>height = 1, width = 3, batch = 1, dim = 3, len = 3,
         data = [0x3F800000, 0xC0000000, 0x7FC00001]\<rparr>"

definition Z3 :: "32 word Tensor" where
  "Z3 = \<lparr>height = 1, width = 3, batch = 1, dim = 3, len = 3, data = [0, 0, 0]\<rparr>"




section \<open>Verification\<close>

subsection \<open>Loops\<close>

declare forE.simps [simp del] for4.simps [simp del]

lemma forE_done: "n \<le> i \<Longrightarrow> forE i n body s = Inr s"
  by (subst forE.simps) simp

lemma forE_step:
  "i < n \<Longrightarrow> body i s = Inr s' \<Longrightarrow> forE i n body s = forE (i + 1) n body s'"
  by (subst forE.simps) simp

lemma forE_rule:
  assumes "i \<le> n" and "I i s"
    and step: "\<And>k s. i \<le> k \<Longrightarrow> k < n \<Longrightarrow> I k s \<Longrightarrow> \<exists>s'. body k s = Inr s' \<and> I (k + 1) s'"
  shows "\<exists>s'. forE i n body s = Inr s' \<and> I n s'"
  using assms
proof (induction i n body s rule: forE.induct)
  case (1 i n body s)
  show ?case
  proof (cases "i < n")
    case True
    from "1.prems"(3)[OF order_refl True "1.prems"(2)]
    obtain s' where s': "body i s = Inr s'" "I (i + 1) s'" by blast
    have "\<exists>s''. forE (i + 1) n body s' = Inr s'' \<and> I n s''"
    proof (rule "1.IH"[OF True s'(1)])
      show "i + 1 \<le> n" using True by simp
      show "I (i + 1) s'" by (rule s'(2))
      fix k s assume "i + 1 \<le> k" "k < n" "I k s"
      then show "\<exists>s'. body k s = Inr s' \<and> I (k + 1) s'"
        using "1.prems"(3)[of k s] by simp
    qed
    then show ?thesis using forE_step[of i n body s s'] True s'(1) by simp
  next
    case False
    with "1.prems" have "i = n" by simp
    then show ?thesis using "1.prems"(2) by (simp add: forE_done)
  qed
qed

lemma for4_done: "n \<le> i \<Longrightarrow> for4 i n body s = Inr (i, s)"
  by (subst for4.simps) simp

lemma for4_step:
  "i < n \<Longrightarrow> body i s = Inr s' \<Longrightarrow> for4 i n body s = for4 (i + 4) n body s'"
  by (subst for4.simps) simp

text \<open>The unrolled loop runs from a multiple of four to a multiple of four.\<close>
lemma for4_rule:
  assumes "i \<le> n" and "4 dvd (n - i)" and "I i s"
    and step: "\<And>k s. i \<le> k \<Longrightarrow> k + 4 \<le> n \<Longrightarrow> I k s \<Longrightarrow> \<exists>s'. body k s = Inr s' \<and> I (k + 4) s'"
  shows "\<exists>s'. for4 i n body s = Inr (n, s') \<and> I n s'"
  using assms
proof (induction i n body s rule: for4.induct)
  case (1 i n body s)
  show ?case
  proof (cases "i < n")
    case True
    with "1.prems"(2) have le: "i + 4 \<le> n" by presburger
    from "1.prems"(4)[OF order_refl le "1.prems"(3)]
    obtain s' where s': "body i s = Inr s'" "I (i + 4) s'" by blast
    have "\<exists>s''. for4 (i + 4) n body s' = Inr (n, s'') \<and> I n s''"
    proof (rule "1.IH"[OF True s'(1)])
      show "i + 4 \<le> n" by (rule le)
      show "4 dvd n - (i + 4)" using "1.prems"(2) by presburger
      show "I (i + 4) s'" by (rule s'(2))
      fix k s assume "i + 4 \<le> k" "k + 4 \<le> n" "I k s"
      then show "\<exists>s'. body k s = Inr s' \<and> I (k + 4) s'"
        using "1.prems"(4)[of k s] by simp
    qed
    then show ?thesis using for4_step[of i n body s s'] True s'(1) by simp
  next
    case False
    with "1.prems" have "i = n" by simp
    then show ?thesis using "1.prems"(3) by (simp add: for4_done)
  qed
qed

lemma length_upd_range [simp]: "length (upd_range lo hi g d) = length d"
  by (simp add: upd_range_def)

lemma nth_upd_range:
  "p < length d \<Longrightarrow>
   upd_range lo hi g d ! p = (if lo \<le> int p \<and> int p < hi then g (int p) (d ! p) else d ! p)"
  by (simp add: upd_range_def)

lemma upd_range_empty: "hi \<le> lo \<Longrightarrow> upd_range lo hi g d = d"
  by (rule nth_equalityI) (auto simp: nth_upd_range)

lemma upd_range_snoc:
  assumes "lo \<le> k" "0 \<le> k" "k < int (length d)"
  shows "(upd_range lo k g d)[nat k := g k (upd_range lo k g d ! nat k)] = upd_range lo (k + 1) g d"
proof (rule nth_equalityI)
  show "length ((upd_range lo k g d)[nat k := g k (upd_range lo k g d ! nat k)]) =
        length (upd_range lo (k + 1) g d)" by simp
next
  fix p assume "p < length ((upd_range lo k g d)[nat k := g k (upd_range lo k g d ! nat k)])"
  then have p: "p < length d" by simp
  have kk: "nat k < length d" using assms by simp
  show "(upd_range lo k g d)[nat k := g k (upd_range lo k g d ! nat k)] ! p =
        upd_range lo (k + 1) g d ! p"
  proof (cases "p = nat k")
    case True
    then have "int p = k" using assms by simp
    then show ?thesis using p kk assms True by (simp add: nth_upd_range)
  next
    case False
    then have "int p \<noteq> k" using assms by auto
    then show ?thesis using p False by (auto simp: nth_upd_range)
  qed
qed

lemma upd_range_append:
  assumes "lo \<le> mid" "mid \<le> hi"
  shows "upd_range mid hi g (upd_range lo mid g d) = upd_range lo hi g d"
  by (rule nth_equalityI) (use assms in \<open>auto simp: nth_upd_range\<close>)

lemma forE_update:
  assumes an: "a \<le> n" and lo: "0 \<le> off + a" and hi: "off + n \<le> int (length d)"
    and body: "\<And>i d'. a \<le> i \<Longrightarrow> i < n \<Longrightarrow> length d' = length d \<Longrightarrow>
                 body i d' = Inr (d'[nat (off + i) := g (off + i) (d' ! nat (off + i))])"
  shows "forE a n body d = Inr (upd_range (off + a) (off + n) g d)"
proof -
  have "\<exists>s'. forE a n body d = Inr s' \<and> s' = upd_range (off + a) (off + n) g d"
  proof (rule forE_rule[where I = "\<lambda>k s. s = upd_range (off + a) (off + k) g d"])
    show "a \<le> n" by (rule an)
    show "d = upd_range (off + a) (off + a) g d" by (simp add: upd_range_empty)
  next
    fix k s assume k: "a \<le> k" "k < n" and s: "s = upd_range (off + a) (off + k) g d"
    have "body k s = Inr (s[nat (off + k) := g (off + k) (s ! nat (off + k))])"
      using body[OF k] s by simp
    moreover have "s[nat (off + k) := g (off + k) (s ! nat (off + k))] =
                   upd_range (off + a) (off + (k + 1)) g d"
      unfolding s using upd_range_snoc[of "off + a" "off + k" d g] k lo hi
      by (simp add: add.assoc)
    ultimately show "\<exists>s'. body k s = Inr s' \<and> s' = upd_range (off + a) (off + (k + 1)) g d"
      by simp
  qed
  then show ?thesis by simp
qed

lemma forE_blocks:
  assumes S: "0 \<le> S" and B: "0 \<le> B"
    and body: "\<And>k d'. 0 \<le> k \<Longrightarrow> k < B \<Longrightarrow> length d' = length d \<Longrightarrow>
                 body k d' = Inr (upd_range (k * S) (k * S + S) g d')"
  shows "forE 0 B body d = Inr (upd_range 0 (B * S) g d)"
proof -
  have "\<exists>s'. forE 0 B body d = Inr s' \<and> s' = upd_range 0 (B * S) g d"
  proof (rule forE_rule[where I = "\<lambda>k s. s = upd_range 0 (k * S) g d"])
    show "0 \<le> B" by (rule B)
    show "d = upd_range 0 (0 * S) g d" by (simp add: upd_range_empty)
  next
    fix k s assume k: "0 \<le> k" "k < B" and s: "s = upd_range 0 (k * S) g d"
    have "body k s = Inr (upd_range (k * S) (k * S + S) g s)"
      using body[OF k] s by simp
    moreover have "upd_range (k * S) (k * S + S) g s = upd_range 0 ((k + 1) * S) g d"
      unfolding s using upd_range_append[of 0 "k * S" "k * S + S" g d] k S
      by (simp add: algebra_simps)
    ultimately show "\<exists>s'. body k s = Inr s' \<and> s' = upd_range 0 ((k + 1) * S) g d"
      by simp
  qed
  then show ?thesis by simp
qed

lemma assign2_ok:
  assumes "0 \<le> p" "p < int (length x)" "0 \<le> q" "q < int (length y)" "p < int (length d)"
  shows "assign2 f x y p q d = Inr (d[nat p := f (x ! nat p) (y ! nat q)])"
  using assms by (simp add: assign2_def rd_def wr_def)

lemma Tensor3_wf:
  assumes "wf t"
  shows "Tensor3 (batch t) (height t) (width t) =
         Inr \<lparr>height = height t, width = width t, batch = batch t, dim = 3, len = len t,
              data = replicate (nat (len t)) (0::'a::zero)\<rparr>"
  using assms by (simp add: Tensor3_def wf_def Let_def)

lemma wf_len_nonneg: "wf t \<Longrightarrow> 0 \<le> len t"
  by (simp add: wf_def)

lemma wf_length: "wf t \<Longrightarrow> length (data t) = nat (len t)"
  unfolding wf_def by (metis nat_int)

lemma upd_range_all:
  assumes "int (length d) \<le> hi"
  shows "upd_range 0 hi g d = map (\<lambda>p. g (int p) (d ! p)) [0..<length d]"
  using assms by (simp add: upd_range_def)

lemma cblas_scopy_ok:
  assumes "0 \<le> n" "n \<le> int (length x)" "0 \<le> yo" "yo + n \<le> int (length y)"
  shows "cblas_scopy n x 0 y yo = Inr (upd_range yo (yo + n) (\<lambda>p _. x ! nat (p - yo)) y)"
  unfolding cblas_scopy_def
  using assms
  by (intro forE_update[where off = yo and a = 0, simplified]) (auto simp: rd_def wr_def)

lemma cblas_saxpy_ok:
  assumes "0 \<le> n" "n \<le> int (length x)" "0 \<le> yo" "yo + n \<le> int (length y)"
  shows "cblas_saxpy n alpha x 0 y yo =
         Inr (upd_range yo (yo + n) (\<lambda>p v. alpha * x ! nat (p - yo) + v) y)"
  unfolding cblas_saxpy_def
  using assms
  by (intro forE_update[where off = yo and a = 0, simplified]) (auto simp: rd_def wr_def)

lemma block_mod:
  assumes "0 \<le> k" "k * S \<le> p" "p < k * S + S"
  shows "p mod S = p - k * (S::int)"
proof -
  have "0 \<le> p - k * S" "p - k * S < S" using assms by simp_all
  then have "(p - k * S) mod S = p - k * S" by simp
  moreover have "(p - k * S) mod S = p mod S"
    by (metis mod_mult_self1 add.commute diff_add_cancel mult.commute)
  ultimately show ?thesis by simp
qed

lemma nat_mod_block:
  assumes "0 \<le> k" "0 \<le> i" "i < S"
  shows "nat ((k * S + i) mod S) = nat i"
  using block_mod[of k S "k * S + i"] assms by simp

lemma bcast_loop_fallback:
  assumes S: "0 \<le> S" and B: "0 \<le> B" and x: "int (length x) = B * S"
    and y: "int (length y) = S" and d: "int (length d) = B * S"
  shows "forE 0 B (\<lambda>k d. forE 0 S (\<lambda>i d. let j = k * S in assign2 f x y (j + i) i d) d) d =
         Inr (map (\<lambda>p. f (x ! p) (y ! (p mod nat S))) [0..<length d])"
proof -
  let ?g = "\<lambda>p (v::'a). f (x ! nat p) (y ! nat (p mod S))"
  have inner: "forE 0 S (\<lambda>i d. let j = k * S in assign2 f x y (j + i) i d) d' =
               Inr (upd_range (k * S) (k * S + S) ?g d')"
    if k: "0 \<le> k" "k < B" and d': "length d' = length d" for k d'
  proof -
    have kS: "k * S + S \<le> B * S"
    proof -
      have "(k + 1) * S \<le> B * S" using k S by (intro mult_right_mono) simp_all
      then show ?thesis by (simp add: algebra_simps)
    qed
    have k0: "0 \<le> k * S" using k S by simp
    show ?thesis
    proof (rule forE_update[where off = "k * S" and a = 0, simplified])
      show "0 \<le> S" by (rule S)
      show "0 \<le> k * S" using k0 by simp
      show "k * S + S \<le> int (length d')" using kS d d' by simp
    next
      fix i and d'' :: "'a list" assume i: "0 \<le> i" "i < S" and d'': "length d'' = length d'"
      have "assign2 f x y (k * S + i) i d'' =
            Inr (d''[nat (k * S + i) := f (x ! nat (k * S + i)) (y ! nat i)])"
        using i k0 kS x y d d' d'' by (intro assign2_ok) simp_all
      moreover have "nat ((k * S + i) mod S) = nat i"
        using nat_mod_block[OF k(1) i] .
      ultimately show "(let j = k * S in assign2 f x y (j + i) i d'') =
            Inr (d''[nat (k * S + i) := f (x ! nat (k * S + i)) (y ! nat ((k * S + i) mod S))])"
        by simp
    qed
  qed
  have "forE 0 B (\<lambda>k d. forE 0 S (\<lambda>i d. let j = k * S in assign2 f x y (j + i) i d) d) d =
        Inr (upd_range 0 (B * S) ?g d)"
    by (rule forE_blocks[OF S B]) (rule inner)
  also have "upd_range 0 (B * S) ?g d = map (\<lambda>p. f (x ! p) (y ! (p mod nat S))) [0..<length d]"
    using d S by (simp add: upd_range_all nat_mod_distrib)
  finally show ?thesis .
qed

lemma elementwise_loop:
  assumes x: "int (length x) = n" and y: "n \<le> int (length y)" and d: "int (length d) = n"
  shows "forE 0 n (\<lambda>k d. assign2 f x y k k d) d = Inr (map (\<lambda>p. f (x ! p) (y ! p)) [0..<length d])"
proof -
  have "forE 0 n (\<lambda>k d. assign2 f x y k k d) d =
        Inr (upd_range 0 n (\<lambda>p v. f (x ! nat p) (y ! nat p)) d)"
  proof (rule forE_update[where off = 0 and a = 0, simplified])
    show "0 \<le> n" using x by linarith
    show "n \<le> int (length d)" using d by simp
  next
    fix i and d' :: "'a list" assume "0 \<le> i" "i < n" "length d' = length d"
    then show "assign2 f x y i i d' = Inr (d'[nat i := f (x ! nat i) (y ! nat i)])"
      using x y d by (intro assign2_ok) simp_all
  qed
  also have "upd_range 0 n (\<lambda>p v. f (x ! nat p) (y ! nat p)) d =
             map (\<lambda>p. f (x ! p) (y ! p)) [0..<length d]"
    using d by (simp add: upd_range_all)
  finally show ?thesis .
qed

lemma bcast_loop_blas:
  assumes S: "0 \<le> S" and B: "0 \<le> B"
    and y: "int (length y) = S" and d: "int (length d) = B * S"
  shows "forE 0 B (\<lambda>k d. cblas_saxpy S alpha y 0 d (k * S)) d =
         Inr (map (\<lambda>p. alpha * y ! (p mod nat S) + d ! p) [0..<length d])"
proof -
  let ?g = "\<lambda>p v. alpha * y ! nat (p mod S) + v"
  have inner: "cblas_saxpy S alpha y 0 d' (k * S) = Inr (upd_range (k * S) (k * S + S) ?g d')"
    if k: "0 \<le> k" "k < B" and d': "length d' = length d" for k d'
  proof -
    have kS: "k * S + S \<le> B * S"
    proof -
      have "(k + 1) * S \<le> B * S" using k S by (intro mult_right_mono) simp_all
      then show ?thesis by (simp add: algebra_simps)
    qed
    have k0: "0 \<le> k * S" using k S by simp
    have "cblas_saxpy S alpha y 0 d' (k * S) =
          Inr (upd_range (k * S) (k * S + S) (\<lambda>p v. alpha * y ! nat (p - k * S) + v) d')"
      using S y k0 kS d d' by (intro cblas_saxpy_ok) simp_all
    also have "upd_range (k * S) (k * S + S) (\<lambda>p v. alpha * y ! nat (p - k * S) + v) d' =
               upd_range (k * S) (k * S + S) ?g d'"
      by (rule nth_equalityI) (auto simp: nth_upd_range block_mod[OF k(1)])
    finally show ?thesis .
  qed
  have "forE 0 B (\<lambda>k d. cblas_saxpy S alpha y 0 d (k * S)) d = Inr (upd_range 0 (B * S) ?g d)"
    by (rule forE_blocks[OF S B]) (rule inner)
  also have "upd_range 0 (B * S) ?g d = map (\<lambda>p. alpha * y ! (p mod nat S) + d ! p) [0..<length d]"
    using d S by (simp add: upd_range_all nat_mod_distrib)
  finally show ?thesis .
qed

lemma cblas_scopy_all:
  assumes "int (length x) = n" "int (length y) = n"
  shows "cblas_scopy n x 0 y 0 = Inr x"
proof -
  have "cblas_scopy n x 0 y 0 = Inr (upd_range 0 (0 + n) (\<lambda>p _. x ! nat (p - 0)) y)"
    using assms by (intro cblas_scopy_ok) simp_all
  also have "upd_range 0 (0 + n) (\<lambda>p _. x ! nat (p - 0)) y = x"
    using assms by (intro nth_equalityI) (auto simp: nth_upd_range)
  finally show ?thesis .
qed

lemma cblas_saxpy_all:
  assumes "int (length x) \<ge> n" "int (length y) = n"
  shows "cblas_saxpy n alpha x 0 y 0 = Inr (map (\<lambda>p. alpha * x ! p + y ! p) [0..<length y])"
proof -
  have "cblas_saxpy n alpha x 0 y 0 = Inr (upd_range 0 (0 + n) (\<lambda>p v. alpha * x ! nat (p - 0) + v) y)"
    using assms by (intro cblas_saxpy_ok) simp_all
  also have "upd_range 0 (0 + n) (\<lambda>p v. alpha * x ! nat (p - 0) + v) y =
             map (\<lambda>p. alpha * x ! p + y ! p) [0..<length y]"
    using assms by (simp add: upd_range_all)
  finally show ?thesis .
qed

lemma wf_bcast_sizes:
  assumes "wf t" "wf m" "height t = height m" "width t = width m" "batch m = 1"
  shows "len m = width t * height t" "len t = batch t * len m" "0 \<le> len m" "0 \<le> batch t"
        "int (length (data t)) = batch t * len m" "int (length (data m)) = len m"
proof -
  have m: "len m = height m * width m" "int (length (data m)) = len m" "0 \<le> height m" "0 \<le> width m"
    using assms(2,5) unfolding wf_def by simp_all
  have t: "len t = height t * width t * batch t" "int (length (data t)) = len t" "0 \<le> batch t"
    using assms(1) unfolding wf_def by simp_all
  show "len m = width t * height t" using m(1) assms(3,4) by (simp add: mult.commute)
  then show "len t = batch t * len m" using t(1) by (simp add: mult.commute)
  then show "int (length (data t)) = batch t * len m" using t(2) by simp
  show "0 \<le> len m" using m by simp
  show "0 \<le> batch t" by (rule t(3))
  show "int (length (data m)) = len m" by (rule m(2))
qed

lemma add_Tensor_bcast:
  fixes t m :: "('a::{zero,one,plus,times}) Tensor"
  assumes "wf t" "wf m" "height t = height m" "width t = width m" "batch m = 1"
  shows "add_Tensor ub t m =
         Inr \<lparr>height = height t, width = width t, batch = batch t, dim = 3, len = len t,
              data = map (\<lambda>p. if ub then 1 * data m ! (p mod nat (len m)) + data t ! p
                               else data t ! p + data m ! (p mod nat (len m)))
                         [0..<nat (len t)]\<rparr>"
proof -
  note sz = wf_bcast_sizes[OF assms]
  let ?z = "replicate (nat (len t)) (0::'a)"
  have lt: "length (data t) = nat (len t)" by (rule wf_length[OF assms(1)])
  show ?thesis
  proof (cases ub)
    case False
    have "forE 0 (batch t) (\<lambda>k d. forE 0 (len m) (\<lambda>i d.
             let j = k * len m in assign2 (+) (data t) (data m) (j + i) i d) d) ?z =
          Inr (map (\<lambda>p. data t ! p + data m ! (p mod nat (len m))) [0..<length ?z])"
      using sz by (intro bcast_loop_fallback) simp_all
    then show ?thesis
      unfolding add_Tensor_def Tensor3_wf[OF assms(1)]
      using False assms(3,4,5) by simp
  next
    case True
    have cp: "cblas_scopy (len t) (data t) 0 ?z 0 = Inr (data t)"
      using sz wf_len_nonneg[OF assms(1)] by (intro cblas_scopy_all) simp_all
    have "forE 0 (batch t) (\<lambda>k d. cblas_saxpy (len m) 1 (data m) 0 d (k * len m)) (data t) =
          Inr (map (\<lambda>p. 1 * data m ! (p mod nat (len m)) + data t ! p) [0..<length (data t)])"
      using sz by (intro bcast_loop_blas) simp_all
    then show ?thesis
      unfolding add_Tensor_def Tensor3_wf[OF assms(1)]
      using True assms(3,4,5) sz(1) cp lt by simp
  qed
qed

lemma concat_blocks:
  assumes "B * S \<le> length xs" "length row = S"
  shows "concat (map (\<lambda>k. map2 f (take S (drop (k * S) xs)) row) [0..<B]) =
         map (\<lambda>p. f (xs ! p) (row ! (p mod S))) [0..<B * S]"
  using assms(1)
proof (induction B)
  case 0
  show ?case by simp
next
  case (Suc B)
  let ?F = "\<lambda>k. map2 f (take S (drop (k * S) xs)) row"
  let ?G = "\<lambda>p. f (xs ! p) (row ! (p mod S))"
  have le: "B * S + S \<le> length xs" using Suc.prems by (simp add: add.commute)
  then have le': "B * S \<le> length xs" by simp
  have last: "?F B = map ?G [B * S..<B * S + S]"
  proof (rule nth_equalityI)
    show "length (?F B) = length (map ?G [B * S..<B * S + S])"
      using le assms(2) by simp
  next
    fix i assume "i < length (?F B)"
    then have i: "i < S" using assms(2) by simp
    have "?F B ! i = f (xs ! (B * S + i)) (row ! i)"
      using i le assms(2) by simp
    moreover have "map ?G [B * S..<B * S + S] ! i = f (xs ! (B * S + i)) (row ! ((B * S + i) mod S))"
      using i by simp
    moreover have "(B * S + i) mod S = i" using i by simp
    ultimately show "?F B ! i = map ?G [B * S..<B * S + S] ! i" by simp
  qed
  have split: "[0..<Suc B * S] = [0..<B * S] @ [B * S..<B * S + S]"
    using upt_add_eq_append[of 0 "B * S" S] by (simp add: add.commute)
  have "concat (map ?F [0..<Suc B]) = concat (map ?F [0..<B]) @ ?F B" by simp
  also have "\<dots> = map ?G [0..<B * S] @ map ?G [B * S..<B * S + S]"
    using Suc.IH[OF le'] last by (simp only:)
  also have "\<dots> = map ?G [0..<Suc B * S]"
    by (simp only: split map_append)
  finally show ?case .
qed

lemma bcast_map_eq_rows:
  fixes t m :: "('a::plus) Tensor"
  assumes "wf t" "wf m" "height t = height m" "width t = width m" "batch m = 1"
  shows "map (\<lambda>p. data t ! p + data m ! (p mod nat (len m))) [0..<nat (len t)] =
         add_row_to_each_batch t (data m)"
proof -
  note sz = wf_bcast_sizes[OF assms]
  have S: "nat (height t * width t) = nat (len m)" using sz(1) by (simp add: mult.commute)
  have L: "nat (len t) = nat (batch t) * nat (len m)"
    using sz by (simp add: nat_mult_distrib)
  have "concat (map (\<lambda>k. map2 (+) (take (nat (len m)) (drop (k * nat (len m)) (data t))) (data m))
            [0..<nat (batch t)]) =
        map (\<lambda>p. data t ! p + data m ! (p mod nat (len m))) [0..<nat (batch t) * nat (len m)]"
    using sz L wf_length[OF assms(1)] wf_length[OF assms(2)]
    by (intro concat_blocks) simp_all
  then show ?thesis
    by (simp add: add_row_to_each_batch_def batch_slice_def S L)
qed

subsection \<open>Broadcasting a single batch row\<close>

text \<open>
  Claim C5: for a left operand with \<open>batch \<ge> 1\<close> and a right operand of the same height and
  width with \<open>batch = 1\<close>, \<^verbatim>\<open>add\<close> returns the tensor of the left operand's shape whose
  buffer is the right operand's single batch row added to each batch slice of the left
  operand. The fallback path computes \<open>a + b\<close> and needs no law of arithmetic; the BLAS
  path computes \<open>1 * b + a\<close> (\<^verbatim>\<open>cblas_saxpy\<close> with \<open>alpha = 1\<close>), so for it the two laws
  \<open>1 * x = x\<close> and \<open>x + y = y + x\<close>, which binary32 arithmetic has, are assumed.
\<close>

theorem add_broadcast_batch:
  fixes t m :: "('a::{zero,one,plus,times}) Tensor"
  assumes "wf t" "wf m" "1 \<le> batch t" "batch m = 1"
    and "height t = height m" "width t = width m"
    and "use_blas \<Longrightarrow> (\<forall>x::'a. 1 * x = x) \<and> (\<forall>x y::'a. x + y = y + x)"
  shows "add_Tensor use_blas t m =
         Inr \<lparr>height = height t, width = width t, batch = batch t, dim = 3, len = len t,
              data = add_row_to_each_batch t (data m)\<rparr>"
proof -
  have "(\<lambda>p. if use_blas then 1 * data m ! (p mod nat (len m)) + data t ! p
              else data t ! p + data m ! (p mod nat (len m))) =
        (\<lambda>p. data t ! p + data m ! (p mod nat (len m)))"
    using assms(7) by (cases use_blas) auto
  then show ?thesis
    using add_Tensor_bcast[OF assms(1,2,5,6,4), of use_blas]
          bcast_map_eq_rows[OF assms(1,2,5,6,4)]
    by simp
qed

theorem add_broadcast_batch_witness:
  "wf T212 \<and> wf T112 \<and> 1 \<le> batch T212 \<and> batch T112 = 1 \<and>
   height T212 = height T112 \<and> width T212 = width T112 \<and>
   add_Tensor True T212 T112 =
     Inr \<lparr>height = 1, width = 2, batch = 2, dim = 3, len = 4, data = [2, 4, 4, 6]\<rparr> \<and>
   add_Tensor False T212 T112 =
     Inr \<lparr>height = 1, width = 2, batch = 2, dim = 3, len = 4, data = [2, 4, 4, 6]\<rparr>"
proof -
  have h: "wf T212" "wf T112" "1 \<le> batch T212" "batch T112 = 1"
    "height T212 = height T112" "width T212 = width T112"
    by (simp_all add: wf_def T212_def T112_def)
  have laws: "(\<forall>x::real. 1 * x = x) \<and> (\<forall>x y::real. x + y = y + x)" by simp
  have rows: "add_row_to_each_batch T212 (data T112) = [2, 4, 4, 6]"
    by code_simp
  show ?thesis
    using h add_broadcast_batch[OF h, of True] add_broadcast_batch[OF h, of False] laws rows
    by (simp add: T212_def)
qed

lemma cdiv4_nonneg: "0 \<le> a \<Longrightarrow> cdiv a 4 = a div 4"
  by (cases "a = 0") (simp_all add: cdiv_def)

lemma assign2_snoc:
  assumes "lo \<le> p" "0 \<le> p" "p < int (length x)" "p < int (length d)"
    "0 \<le> p - b" "p - b < int (length y)"
  shows "assign2 f x y p (p - b) (upd_range lo p (\<lambda>p _. f (x ! nat p) (y ! nat (p - b))) d) =
         Inr (upd_range lo (p + 1) (\<lambda>p _. f (x ! nat p) (y ! nat (p - b))) d)"
proof -
  let ?G = "\<lambda>p (_::'a). f (x ! nat p) (y ! nat (p - b))"
  have "assign2 f x y p (p - b) (upd_range lo p ?G d) =
        Inr ((upd_range lo p ?G d)[nat p := f (x ! nat p) (y ! nat (p - b))])"
    using assms by (intro assign2_ok) simp_all
  also have "(upd_range lo p ?G d)[nat p := f (x ! nat p) (y ! nat (p - b))] =
             upd_range lo (p + 1) ?G d"
    using upd_range_snoc[of lo p d ?G] assms by simp
  finally show ?thesis .
qed

lemma unrolled4_ok:
  assumes "0 \<le> b" "0 \<le> i" "b + i + 4 \<le> int (length x)" "b + i + 4 \<le> int (length d)"
    "i + 4 \<le> int (length y)"
  shows "unrolled4 f x y b i d =
         Inr (upd_range (b + i) (b + i + 4) (\<lambda>p _. f (x ! nat p) (y ! nat (p - b))) d)"
proof -
  let ?G = "\<lambda>p (_::'a). f (x ! nat p) (y ! nat (p - b))"
  let ?k = "b + i"
  have d0: "d = upd_range ?k ?k ?G d" by (simp add: upd_range_empty)
  have s1: "assign2 f x y (b + i + 0) (i + 0) d = Inr (upd_range ?k (?k + 1) ?G d)"
    using assign2_snoc[of ?k ?k x d b y f] assms d0 by simp
  have s2: "assign2 f x y (b + i + 1) (i + 1) (upd_range ?k (?k + 1) ?G d) =
            Inr (upd_range ?k (?k + 2) ?G d)"
    using assign2_snoc[of ?k "?k + 1" x d b y f] assms by (simp add: add.assoc)
  have s3: "assign2 f x y (b + i + 2) (i + 2) (upd_range ?k (?k + 2) ?G d) =
            Inr (upd_range ?k (?k + 3) ?G d)"
    using assign2_snoc[of ?k "?k + 2" x d b y f] assms by (simp add: add.assoc)
  have s4: "assign2 f x y (b + i + 3) (i + 3) (upd_range ?k (?k + 3) ?G d) =
            Inr (upd_range ?k (?k + 4) ?G d)"
    using assign2_snoc[of ?k "?k + 3" x d b y f] assms by (simp add: add.assoc)
  show ?thesis
    unfolding unrolled4_def by (simp only: s1 s2 s3 s4 bindE.simps)
qed

lemma for4_unrolled:
  assumes b: "0 \<le> b" and e: "0 \<le> e" and x: "b + e * 4 \<le> int (length x)"
    and d: "b + e * 4 \<le> int (length d)" and y: "e * 4 \<le> int (length y)"
  shows "for4 0 (e * 4) (unrolled4 f x y b) d =
         Inr (e * 4, upd_range b (b + e * 4) (\<lambda>p _. f (x ! nat p) (y ! nat (p - b))) d)"
proof -
  let ?G = "\<lambda>p (_::'a). f (x ! nat p) (y ! nat (p - b))"
  have "\<exists>s'. for4 0 (e * 4) (unrolled4 f x y b) d = Inr (e * 4, s') \<and>
             s' = upd_range b (b + e * 4) ?G d"
  proof (rule for4_rule[where I = "\<lambda>k s. s = upd_range b (b + k) ?G d"])
    show "0 \<le> e * 4" using e by simp
    show "4 dvd e * 4 - 0" by simp
    show "d = upd_range b (b + 0) ?G d" by (simp add: upd_range_empty)
  next
    fix k and s :: "'a list"
    assume k: "0 \<le> k" "k + 4 \<le> e * 4" and s: "s = upd_range b (b + k) ?G d"
    have "unrolled4 f x y b k s = Inr (upd_range (b + k) (b + k + 4) ?G s)"
      using b k x d y s by (intro unrolled4_ok) simp_all
    moreover have "upd_range (b + k) (b + k + 4) ?G s = upd_range b (b + (k + 4)) ?G d"
      unfolding s using upd_range_append[of b "b + k" "b + k + 4" ?G d] k
      by (simp add: add.assoc)
    ultimately show "\<exists>s'. unrolled4 f x y b k s = Inr s' \<and> s' = upd_range b (b + (k + 4)) ?G d"
      by simp
  qed
  then show ?thesis by simp
qed

lemma unrolled_then_tail:
  assumes b: "0 \<le> b" and S: "0 \<le> S" and x: "b + S \<le> int (length x)"
    and d: "b + S \<le> int (length d)" and y: "S \<le> int (length y)"
  shows "bindE (for4 0 (cdiv S 4 * 4) (unrolled4 f x y b) d)
           (\<lambda>(i, d). forE i S (\<lambda>j d. assign2 f x y (b + j) j d) d) =
         Inr (upd_range b (b + S) (\<lambda>p _. f (x ! nat p) (y ! nat (p - b))) d)"
proof -
  let ?G = "\<lambda>p (_::'a). f (x ! nat p) (y ! nat (p - b))"
  let ?e = "S div 4"
  have e: "0 \<le> ?e" "?e * 4 \<le> S" using S by simp_all
  have c: "cdiv S 4 = ?e" by (rule cdiv4_nonneg[OF S])
  have head: "for4 0 (?e * 4) (unrolled4 f x y b) d = Inr (?e * 4, upd_range b (b + ?e * 4) ?G d)"
    using b e x d y by (intro for4_unrolled) simp_all
  have tail: "forE (?e * 4) S (\<lambda>j d. assign2 f x y (b + j) j d) (upd_range b (b + ?e * 4) ?G d) =
              Inr (upd_range (b + ?e * 4) (b + S) ?G (upd_range b (b + ?e * 4) ?G d))"
  proof (rule forE_update)
    show "?e * 4 \<le> S" by (rule e(2))
    show "0 \<le> b + ?e * 4" using b e by simp
    show "b + S \<le> int (length (upd_range b (b + ?e * 4) ?G d))" using d by simp
  next
    fix j and d' :: "'a list"
    assume j: "?e * 4 \<le> j" "j < S" and d': "length d' = length (upd_range b (b + ?e * 4) ?G d)"
    have j0: "0 \<le> j" using j e by linarith
    have "assign2 f x y (b + j) j d' = Inr (d'[nat (b + j) := f (x ! nat (b + j)) (y ! nat j)])"
      using b j j0 x y d d' by (intro assign2_ok) simp_all
    then show "assign2 f x y (b + j) j d' =
               Inr (d'[nat (b + j) := f (x ! nat (b + j)) (y ! nat (b + j - b))])"
      by simp
  qed
  have "upd_range (b + ?e * 4) (b + S) ?G (upd_range b (b + ?e * 4) ?G d) = upd_range b (b + S) ?G d"
    using e by (intro upd_range_append) simp_all
  with head tail show ?thesis by (simp add: c)
qed

lemma bcast_loop_unrolled:
  assumes W: "0 \<le> W" and H: "0 \<le> H" and B: "0 \<le> B" and x: "int (length x) = B * (W * H)"
    and y: "int (length y) = W * H" and d: "int (length d) = B * (W * H)"
  shows "forE 0 B (\<lambda>k d. let b = k * W * H in
           bindE (for4 0 (cdiv (W * H) 4 * 4) (unrolled4 f x y b) d) (\<lambda>(i, d).
             forE i (W * H) (\<lambda>j d. assign2 f x y (b + j) j d) d)) d =
         Inr (map (\<lambda>p. f (x ! p) (y ! (p mod nat (W * H)))) [0..<length d])"
proof -
  let ?S = "W * H"
  let ?g = "\<lambda>p (v::'a). f (x ! nat p) (y ! nat (p mod ?S))"
  have S: "0 \<le> ?S" using W H by simp
  have inner: "(let b = k * W * H in
           bindE (for4 0 (cdiv ?S 4 * 4) (unrolled4 f x y b) d') (\<lambda>(i, d).
             forE i ?S (\<lambda>j d. assign2 f x y (b + j) j d) d)) =
               Inr (upd_range (k * ?S) (k * ?S + ?S) ?g d')"
    if k: "0 \<le> k" "k < B" and d': "length d' = length d" for k and d' :: "'a list"
  proof -
    have kS: "k * ?S + ?S \<le> B * ?S"
    proof -
      have "(k + 1) * ?S \<le> B * ?S" using k S by (intro mult_right_mono) simp_all
      then show ?thesis by (simp add: algebra_simps)
    qed
    have k0: "0 \<le> k * ?S" using k S by simp
    have "bindE (for4 0 (cdiv ?S 4 * 4) (unrolled4 f x y (k * ?S)) d') (\<lambda>(i, d).
             forE i ?S (\<lambda>j d. assign2 f x y (k * ?S + j) j d) d) =
          Inr (upd_range (k * ?S) (k * ?S + ?S) (\<lambda>p _. f (x ! nat p) (y ! nat (p - k * ?S))) d')"
      using k0 S kS x y d d' by (intro unrolled_then_tail) simp_all
    also have "upd_range (k * ?S) (k * ?S + ?S) (\<lambda>p _. f (x ! nat p) (y ! nat (p - k * ?S))) d' =
               upd_range (k * ?S) (k * ?S + ?S) ?g d'"
      by (rule nth_equalityI) (auto simp: nth_upd_range block_mod[OF k(1)])
    finally show ?thesis by (simp add: mult.assoc Let_def)
  qed
  have "forE 0 B (\<lambda>k d. let b = k * W * H in
           bindE (for4 0 (cdiv ?S 4 * 4) (unrolled4 f x y b) d) (\<lambda>(i, d).
             forE i ?S (\<lambda>j d. assign2 f x y (b + j) j d) d)) d = Inr (upd_range 0 (B * ?S) ?g d)"
    by (rule forE_blocks[OF S B]) (rule inner)
  also have "upd_range 0 (B * ?S) ?g d = map (\<lambda>p. f (x ! p) (y ! (p mod nat ?S))) [0..<length d]"
    using d S by (simp add: upd_range_all nat_mod_distrib)
  finally show ?thesis .
qed

lemma elementwise_unrolled:
  assumes x: "int (length x) = n" and y: "n \<le> int (length y)" and d: "int (length d) = n"
  shows "bindE (for4 0 (cdiv n 4 * 4) (unrolled4 f x y 0) d)
           (\<lambda>(i, d). forE i n (\<lambda>j d. assign2 f x y j j d) d) =
         Inr (map (\<lambda>p. f (x ! p) (y ! p)) [0..<length d])"
proof -
  have n: "0 \<le> n" using x by linarith
  have "bindE (for4 0 (cdiv n 4 * 4) (unrolled4 f x y 0) d)
           (\<lambda>(i, d). forE i n (\<lambda>j d. assign2 f x y (0 + j) j d) d) =
        Inr (upd_range 0 (0 + n) (\<lambda>p _. f (x ! nat p) (y ! nat (p - 0))) d)"
    using n x y d by (intro unrolled_then_tail) simp_all
  moreover have "upd_range 0 (0 + n) (\<lambda>p _. f (x ! nat p) (y ! nat (p - 0))) d =
                 map (\<lambda>p. f (x ! p) (y ! p)) [0..<length d]"
    using d by (simp add: upd_range_all)
  ultimately show ?thesis by simp
qed

lemma wf_same_sizes:
  assumes "wf t" "wf m" "height t = height m" "width t = width m" "batch m = batch t"
  shows "len m = len t" "int (length (data t)) = len t" "int (length (data m)) = len t"
  using assms unfolding wf_def by simp_all

lemma multiply_Tensor_bcast:
  fixes t m :: "('a::{zero,times}) Tensor"
  assumes "wf t" "wf m" "height t = height m" "width t = width m" "batch m = 1"
  shows "multiply_Tensor t m =
         Inr \<lparr>height = height t, width = width t, batch = batch t, dim = 3, len = len t,
              data = map (\<lambda>p. data t ! p * data m ! (p mod nat (len m))) [0..<nat (len t)]\<rparr>"
proof -
  note sz = wf_bcast_sizes[OF assms]
  let ?z = "replicate (nat (len t)) (0::'a)"
  have wh: "0 \<le> width t" "0 \<le> height t" using assms(1) by (simp_all add: wf_def)
  have "forE 0 (batch t) (\<lambda>k d. let b = k * width t * height t in
           bindE (for4 0 (cdiv (width t * height t) 4 * 4) (unrolled4 (*) (data t) (data m) b) d)
             (\<lambda>(i, d). forE i (width t * height t) (\<lambda>j d.
                assign2 (*) (data t) (data m) (b + j) j d) d)) ?z =
        Inr (map (\<lambda>p. data t ! p * data m ! (p mod nat (width t * height t))) [0..<length ?z])"
    using sz wh by (intro bcast_loop_unrolled) simp_all
  then show ?thesis
    unfolding multiply_Tensor_def Tensor3_wf[OF assms(1)]
    using assms(3,4,5) sz(1) by (simp add: Let_def)
qed

lemma multiply_Tensor_same:
  fixes t m :: "('a::{zero,times}) Tensor"
  assumes "wf t" "wf m" "height t = height m" "width t = width m" "batch m = batch t" "batch m \<noteq> 1"
  shows "multiply_Tensor t m =
         Inr \<lparr>height = height t, width = width t, batch = batch t, dim = 3, len = len t,
              data = map (\<lambda>p. data t ! p * data m ! p) [0..<nat (len t)]\<rparr>"
proof -
  note sz = wf_same_sizes[OF assms(1-5)]
  let ?z = "replicate (nat (len t)) (0::'a)"
  have "bindE (for4 0 (cdiv (len t) 4 * 4) (unrolled4 (*) (data t) (data m) 0) ?z)
           (\<lambda>(i, d). forE i (len t) (\<lambda>j d. assign2 (*) (data t) (data m) j j d) d) =
        Inr (map (\<lambda>p. data t ! p * data m ! p) [0..<length ?z])"
    using sz wf_len_nonneg[OF assms(1)] by (intro elementwise_unrolled) simp_all
  then show ?thesis
    unfolding multiply_Tensor_def Tensor3_wf[OF assms(1)]
    using assms(3,4,5,6) by (simp add: Let_def)
qed

lemma add_Tensor_same:
  fixes t m :: "('a::{zero,one,plus,times}) Tensor"
  assumes "wf t" "wf m" "height t = height m" "width t = width m" "batch m = batch t" "batch m \<noteq> 1"
  shows "add_Tensor ub t m =
         Inr \<lparr>height = height t, width = width t, batch = batch t, dim = 3, len = len t,
              data = map (\<lambda>p. if ub then 1 * data m ! p + data t ! p else data t ! p + data m ! p)
                         [0..<nat (len t)]\<rparr>"
proof -
  note sz = wf_same_sizes[OF assms(1-5)]
  let ?z = "replicate (nat (len t)) (0::'a)"
  have lt: "length (data t) = nat (len t)" by (rule wf_length[OF assms(1)])
  show ?thesis
  proof (cases ub)
    case False
    have "forE 0 (len t) (\<lambda>k d. assign2 (+) (data t) (data m) k k d) ?z =
          Inr (map (\<lambda>p. data t ! p + data m ! p) [0..<length ?z])"
      using sz wf_len_nonneg[OF assms(1)] by (intro elementwise_loop) simp_all
    then show ?thesis
      unfolding add_Tensor_def Tensor3_wf[OF assms(1)]
      using False assms(3,4,5,6) by simp
  next
    case True
    have cp: "cblas_scopy (len t) (data t) 0 ?z 0 = Inr (data t)"
      using sz wf_len_nonneg[OF assms(1)] by (intro cblas_scopy_all) simp_all
    have "cblas_saxpy (len t) 1 (data m) 0 (data t) 0 =
          Inr (map (\<lambda>p. 1 * data m ! p + data t ! p) [0..<length (data t)])"
      using sz by (intro cblas_saxpy_all) simp_all
    then show ?thesis
      unfolding add_Tensor_def Tensor3_wf[OF assms(1)]
      using True assms(3,4,5,6) cp lt by simp
  qed
qed

lemma subtract_Tensor_bcast:
  fixes t m :: "('a::{zero,one,plus,minus,uminus,times}) Tensor"
  assumes "wf t" "wf m" "height t = height m" "width t = width m" "batch m = 1"
  shows "subtract_Tensor ub t m =
         Inr \<lparr>height = height t, width = width t, batch = batch t, dim = 3, len = len t,
              data = map (\<lambda>p. if ub then (- 1) * data m ! (p mod nat (len m)) + data t ! p
                               else data t ! p - data m ! (p mod nat (len m)))
                         [0..<nat (len t)]\<rparr>"
proof -
  note sz = wf_bcast_sizes[OF assms]
  let ?z = "replicate (nat (len t)) (0::'a)"
  have lt: "length (data t) = nat (len t)" by (rule wf_length[OF assms(1)])
  show ?thesis
  proof (cases ub)
    case False
    have "forE 0 (batch t) (\<lambda>k d. forE 0 (len m) (\<lambda>i d.
             let j = k * len m in assign2 (-) (data t) (data m) (j + i) i d) d) ?z =
          Inr (map (\<lambda>p. data t ! p - data m ! (p mod nat (len m))) [0..<length ?z])"
      using sz by (intro bcast_loop_fallback) simp_all
    then show ?thesis
      unfolding subtract_Tensor_def Tensor3_wf[OF assms(1)]
      using False assms(3,4,5) by simp
  next
    case True
    have cp: "cblas_scopy (len t) (data t) 0 ?z 0 = Inr (data t)"
      using sz wf_len_nonneg[OF assms(1)] by (intro cblas_scopy_all) simp_all
    have "forE 0 (batch t) (\<lambda>k d. cblas_saxpy (len m) (- 1) (data m) 0 d (k * len m)) (data t) =
          Inr (map (\<lambda>p. (- 1) * data m ! (p mod nat (len m)) + data t ! p) [0..<length (data t)])"
      using sz by (intro bcast_loop_blas) simp_all
    then show ?thesis
      unfolding subtract_Tensor_def Tensor3_wf[OF assms(1)]
      using True assms(3,4,5) sz(1) cp lt by (simp add: Let_def)
  qed
qed

lemma subtract_Tensor_same:
  fixes t m :: "('a::{zero,one,plus,minus,uminus,times}) Tensor"
  assumes "wf t" "wf m" "height t = height m" "width t = width m" "batch m = batch t" "batch m \<noteq> 1"
  shows "subtract_Tensor ub t m =
         Inr \<lparr>height = height t, width = width t, batch = batch t, dim = 3, len = len t,
              data = map (\<lambda>p. if ub then (- 1) * data m ! p + data t ! p else data t ! p - data m ! p)
                         [0..<nat (len t)]\<rparr>"
proof -
  note sz = wf_same_sizes[OF assms(1-5)]
  let ?z = "replicate (nat (len t)) (0::'a)"
  have lt: "length (data t) = nat (len t)" by (rule wf_length[OF assms(1)])
  show ?thesis
  proof (cases ub)
    case False
    have "forE 0 (len t) (\<lambda>k d. assign2 (-) (data t) (data m) k k d) ?z =
          Inr (map (\<lambda>p. data t ! p - data m ! p) [0..<length ?z])"
      using sz wf_len_nonneg[OF assms(1)] by (intro elementwise_loop) simp_all
    then show ?thesis
      unfolding subtract_Tensor_def Tensor3_wf[OF assms(1)]
      using False assms(3,4,5,6) by simp
  next
    case True
    have cp: "cblas_scopy (len t) (data t) 0 ?z 0 = Inr (data t)"
      using sz wf_len_nonneg[OF assms(1)] by (intro cblas_scopy_all) simp_all
    have "cblas_saxpy (len t) (- 1) (data m) 0 (data t) 0 =
          Inr (map (\<lambda>p. (- 1) * data m ! p + data t ! p) [0..<length (data t)])"
      using sz by (intro cblas_saxpy_all) simp_all
    then show ?thesis
      unfolding subtract_Tensor_def Tensor3_wf[OF assms(1)]
      using True assms(3,4,5,6) cp lt by (simp add: Let_def)
  qed
qed

lemma legal_cases:
  fixes t m :: "('a::{zero,one,plus,minus,uminus,times}) Tensor"
  assumes "wf t" "wf m" "height t = height m" "width t = width m"
    "batch m = 1 \<or> batch m = batch t"
  shows "\<exists>r. add_Tensor ub t m = Inr r \<and> same_shape r t"
    and "\<exists>r. subtract_Tensor ub t m = Inr r \<and> same_shape r t"
    and "\<exists>r. multiply_Tensor t m = Inr r \<and> same_shape r t"
proof -
  have lt: "length (data t) = nat (len t)" by (rule wf_length[OF assms(1)])
  consider "batch m = 1" | "batch m = batch t" "batch m \<noteq> 1" using assms(5) by blast
  then have "(\<exists>r. add_Tensor ub t m = Inr r \<and> same_shape r t) \<and>
             (\<exists>r. subtract_Tensor ub t m = Inr r \<and> same_shape r t) \<and>
             (\<exists>r. multiply_Tensor t m = Inr r \<and> same_shape r t)"
  proof cases
    case 1
    show ?thesis
      using add_Tensor_bcast[OF assms(1-4) 1, of ub] subtract_Tensor_bcast[OF assms(1-4) 1, of ub]
        multiply_Tensor_bcast[OF assms(1-4) 1] lt
      by (simp add: same_shape_def)
  next
    case 2
    show ?thesis
      using add_Tensor_same[OF assms(1-4) 2, of ub] subtract_Tensor_same[OF assms(1-4) 2, of ub]
        multiply_Tensor_same[OF assms(1-4) 2] lt
      by (simp add: same_shape_def)
  qed
  then show "\<exists>r. add_Tensor ub t m = Inr r \<and> same_shape r t"
    and "\<exists>r. subtract_Tensor ub t m = Inr r \<and> same_shape r t"
    and "\<exists>r. multiply_Tensor t m = Inr r \<and> same_shape r t" by blast+
qed

subsection \<open>Legality of the binary elementwise operations\<close>

text \<open>
  Claim C1 states the legality rule as per-axis broadcasting: sizes equal or the other
  operand's size 1. The code asserts \<^verbatim>\<open>height == m.height && width == m.width\<close> instead, so
  a right operand of height 1 is rejected: the \<open>(1, 2, 3)\<close> tensor and the \<open>(1, 1, 3)\<close>
  tensor are legal operands under the spec's rule, and \<^verbatim>\<open>add\<close> and \<^verbatim>\<open>multiply\<close> fail their
  assertion on them.
\<close>

theorem height_broadcast_rejected:
  "wf T123 \<and> wf T113 \<and> spec_broadcast_legal T123 T113 \<and>
   add_Tensor False T123 T113 = Inl AssertFailure \<and>
   add_Tensor True T123 T113 = Inl AssertFailure \<and>
   multiply_Tensor T123 T113 = Inl AssertFailure"
  by (simp add: wf_def spec_broadcast_legal_def add_Tensor_def multiply_Tensor_def T123_def T113_def)

text \<open>
  Claim C1 as amended: whenever the heights or the widths of the operands differ, each of
  \<^verbatim>\<open>add\<close>, \<^verbatim>\<open>subtract\<close>, \<^verbatim>\<open>multiply\<close> and \<^verbatim>\<open>divide\<close> fails its assertion and computes no
  result; when heights and widths agree and the right operand's batch is 1 or the left
  operand's batch, \<^verbatim>\<open>add\<close>, \<^verbatim>\<open>subtract\<close> and \<^verbatim>\<open>multiply\<close> return a tensor of the left
  operand's shape. (Operands whose batch sizes differ with neither being 1 are not
  checked by the code, and \<^verbatim>\<open>divide\<close> leaves its buffer on short tensors; the
  statement says nothing about either.)
\<close>

theorem elementwise_legality:
  fixes t m :: "('a::{zero,one,plus,minus,uminus,times,inverse}) Tensor"
  assumes "wf t" "wf m"
  shows "(\<not> (height t = height m \<and> width t = width m) \<longrightarrow>
            add_Tensor use_blas t m = Inl AssertFailure \<and>
            subtract_Tensor use_blas t m = Inl AssertFailure \<and>
            multiply_Tensor t m = Inl AssertFailure \<and>
            divide_Tensor t m = Inl AssertFailure) \<and>
         (height t = height m \<and> width t = width m \<and> (batch m = 1 \<or> batch m = batch t) \<longrightarrow>
            (\<exists>r. add_Tensor use_blas t m = Inr r \<and> same_shape r t) \<and>
            (\<exists>r. subtract_Tensor use_blas t m = Inr r \<and> same_shape r t) \<and>
            (\<exists>r. multiply_Tensor t m = Inr r \<and> same_shape r t))"
proof (intro conjI impI)
  assume ne: "\<not> (height t = height m \<and> width t = width m)"
  show "add_Tensor use_blas t m = Inl AssertFailure" using ne by (simp add: add_Tensor_def)
  show "subtract_Tensor use_blas t m = Inl AssertFailure" using ne by (simp add: subtract_Tensor_def)
  show "multiply_Tensor t m = Inl AssertFailure" using ne by (simp add: multiply_Tensor_def)
  show "divide_Tensor t m = Inl AssertFailure" using ne by (simp add: divide_Tensor_def)
next
  assume eq: "height t = height m \<and> width t = width m \<and> (batch m = 1 \<or> batch m = batch t)"
  then have h: "height t = height m" "width t = width m" "batch m = 1 \<or> batch m = batch t"
    by simp_all
  show "\<exists>r. add_Tensor use_blas t m = Inr r \<and> same_shape r t"
    by (rule legal_cases(1)[OF assms h])
  show "\<exists>r. subtract_Tensor use_blas t m = Inr r \<and> same_shape r t"
    by (rule legal_cases(2)[OF assms h])
  show "\<exists>r. multiply_Tensor t m = Inr r \<and> same_shape r t"
    by (rule legal_cases(3)[OF assms h])
qed

theorem elementwise_legality_witness:
  "wf T123 \<and> wf T113 \<and> \<not> (height T123 = height T113 \<and> width T123 = width T113) \<and>
   add_Tensor True T123 T113 = Inl AssertFailure \<and>
   subtract_Tensor True T123 T113 = Inl AssertFailure \<and>
   multiply_Tensor T123 T113 = Inl AssertFailure \<and>
   divide_Tensor T123 T113 = Inl AssertFailure \<and>
   wf T212 \<and> wf T112 \<and> height T212 = height T112 \<and> width T212 = width T112 \<and>
   (batch T112 = 1 \<or> batch T112 = batch T212) \<and>
   (\<exists>r. add_Tensor True T212 T112 = Inr r \<and> same_shape r T212) \<and>
   (\<exists>r. subtract_Tensor True T212 T112 = Inr r \<and> same_shape r T212) \<and>
   (\<exists>r. multiply_Tensor T212 T112 = Inr r \<and> same_shape r T212)"
proof -
  have a: "wf T123" "wf T113" "\<not> (height T123 = height T113 \<and> width T123 = width T113)"
    by (simp_all add: wf_def T123_def T113_def)
  have b: "wf T212" "wf T112" "height T212 = height T112" "width T212 = width T112"
    "batch T112 = 1 \<or> batch T112 = batch T212"
    by (simp_all add: wf_def T212_def T112_def)
  show ?thesis
    using a b elementwise_legality[OF a(1,2), of True] elementwise_legality[OF b(1,2), of True]
    by blast
qed

subsection \<open>Loops that write consecutive blocks\<close>

lemma length_put_block: "off + length blk \<le> length d \<Longrightarrow> length (put_block off blk d) = length d"
  by (simp add: put_block_def)

lemma put_block_Nil: "put_block off [] d = d"
  by (simp add: put_block_def)

lemma put_block_all: "length blk = length d \<Longrightarrow> put_block 0 blk d = blk"
  by (simp add: put_block_def)

lemma put_block_append:
  assumes "off + length A + length Bk \<le> length d"
  shows "put_block (off + length A) Bk (put_block off A d) = put_block off (A @ Bk) d"
proof -
  have l: "length (take off d) = off" using assms by simp
  have "take (off + length A) (take off d @ A @ drop (off + length A) d) = take off d @ A"
    using l by simp
  moreover have "drop (off + length A + length Bk) (take off d @ A @ drop (off + length A) d) =
                 drop (off + length A + length Bk) d"
    using l assms by (simp add: add.commute)
  ultimately show ?thesis
    by (simp add: put_block_def add.assoc)
qed

lemma nth_put_block_after:
  assumes "off + length blk \<le> p" "p < length d"
  shows "put_block off blk d ! p = d ! p"
proof -
  have l: "length (take off d) = off" using assms by simp
  have p1: "\<not> p < off" "\<not> p - off < length blk" using assms by simp_all
  have "(take off d @ blk @ drop (off + length blk) d) ! p =
        (blk @ drop (off + length blk) d) ! (p - off)"
    using p1 l by (simp add: nth_append)
  also have "\<dots> = drop (off + length blk) d ! (p - off - length blk)"
    using p1 by (simp add: nth_append)
  also have "\<dots> = d ! (off + length blk + (p - off - length blk))"
    using assms by (intro nth_drop) simp
  also have "off + length blk + (p - off - length blk) = p" using assms by simp
  finally show ?thesis by (simp add: put_block_def)
qed

lemma put_block_single:
  assumes "p < length d"
  shows "d[p := v] = put_block p [v] d"
  using assms by (simp add: put_block_def upd_conv_take_nth_drop)

lemma length_concat_blocks:
  assumes "\<And>k. k < n \<Longrightarrow> length (blk k) = S"
  shows "length (concat (map blk [0..<n])) = n * S"
  using assms by (induction n) simp_all

lemma forE_foldl:
  assumes "0 \<le> n" and "\<And>h w. 0 \<le> h \<Longrightarrow> h < n \<Longrightarrow> body h w = Inr (f w (nat h))"
  shows "forE 0 n body w = Inr (foldl f w [0..<nat n])"
proof -
  have "\<exists>s'. forE 0 n body w = Inr s' \<and> s' = foldl f w [0..<nat n]"
  proof (rule forE_rule[where I = "\<lambda>k s. s = foldl f w [0..<nat k]"])
    show "0 \<le> n" by (rule assms(1))
    show "w = foldl f w [0..<nat 0]" by simp
  next
    fix k s assume k: "0 \<le> k" "k < n" and s: "s = foldl f w [0..<nat k]"
    have "nat (k + 1) = Suc (nat k)" using k by simp
    then have "foldl f w [0..<nat (k + 1)] = f s (nat k)" using s by simp
    then show "\<exists>s'. body k s = Inr s' \<and> s' = foldl f w [0..<nat (k + 1)]"
      using assms(2)[OF k] by simp
  qed
  then show ?thesis by simp
qed

lemma forE_put_blocks:
  assumes n: "0 \<le> n"
    and len: "off + nat n * S \<le> length (get s)"
    and blk: "\<And>k. k < nat n \<Longrightarrow> length (blk k) = S"
    and Q: "Q s"
    and body: "\<And>k s'. 0 \<le> k \<Longrightarrow> k < n \<Longrightarrow> Q s' \<Longrightarrow>
                 get s' = put_block off (concat (map blk [0..<nat k])) (get s) \<Longrightarrow>
                 \<exists>s''. body k s' = Inr s'' \<and> Q s'' \<and>
                       get s'' = put_block (off + nat k * S) (blk (nat k)) (get s')"
  shows "\<exists>s'. forE 0 n body s = Inr s' \<and> Q s' \<and>
              get s' = put_block off (concat (map blk [0..<nat n])) (get s)"
proof (rule forE_rule[where I = "\<lambda>k s'. Q s' \<and>
          get s' = put_block off (concat (map blk [0..<nat k])) (get s)"])
  show "0 \<le> n" by (rule n)
  show "Q s \<and> get s = put_block off (concat (map blk [0..<nat 0])) (get s)"
    using Q by (simp add: put_block_Nil)
next
  fix k s'
  assume k: "0 \<le> k" "k < n"
    and I: "Q s' \<and> get s' = put_block off (concat (map blk [0..<nat k])) (get s)"
  let ?A = "concat (map blk [0..<nat k])"
  have kn: "nat k < nat n" using k by simp
  have lA: "length ?A = nat k * S"
  proof (rule length_concat_blocks)
    fix j assume "j < nat k"
    then have "j < nat n" using kn by (rule less_trans)
    then show "length (blk j) = S" by (rule blk)
  qed
  have lB: "length (blk (nat k)) = S" using blk kn by simp
  have "nat k + 1 \<le> nat n" using kn by linarith
  then have "(nat k + 1) * S \<le> nat n * S" by (rule mult_le_mono1)
  then have fit: "off + length ?A + length (blk (nat k)) \<le> length (get s)"
    using len lA lB by (simp add: algebra_simps)
  from body[OF k] I obtain s'' where s'': "body k s' = Inr s''" "Q s''"
    "get s'' = put_block (off + nat k * S) (blk (nat k)) (get s')" by blast
  have "get s'' = put_block (off + length ?A) (blk (nat k)) (put_block off ?A (get s))"
    using s''(3) I lA by simp
  also have "\<dots> = put_block off (?A @ blk (nat k)) (get s)"
    by (rule put_block_append[OF fit])
  also have "?A @ blk (nat k) = concat (map blk [0..<nat (k + 1)])"
  proof -
    have "nat (k + 1) = Suc (nat k)" using k by simp
    then show ?thesis by simp
  qed
  finally show "\<exists>s''. body k s' = Inr s'' \<and> Q s'' \<and>
       get s'' = put_block off (concat (map blk [0..<nat (k + 1)])) (get s)"
    using s''(1,2) by blast
qed

lemma rd_int: "i < length v \<Longrightarrow> rd v (int i) = Inr (v ! i)"
  by (simp add: rd_def)

lemma wr_int: "i < length v \<Longrightarrow> wr v (int i) x = Inr (v[i := x])"
  by (simp add: wr_def)

lemma idx2_bound:
  fixes i h H W :: nat
  assumes "i < H" "h < W"
  shows "i * W + h < H * W"
proof -
  have "i * W + h < (i + 1) * W" using assms(2) by simp
  also have "\<dots> \<le> H * W" using assms(1) by (intro mult_le_mono1) simp
  finally show ?thesis .
qed

lemma idx3_bound:
  fixes k i h B H W :: nat
  assumes "k < B" "i < H" "h < W"
  shows "k * H * W + i * W + h < B * H * W"
proof -
  have "i * W + h < H * W" by (rule idx2_bound[OF assms(2,3)])
  then have "k * (H * W) + (i * W + h) < (k + 1) * (H * W)" by simp
  also have "\<dots> \<le> B * (H * W)" using assms(1) by (intro mult_le_mono1) simp
  finally show ?thesis by (simp add: mult.assoc add.assoc)
qed


lemma forE_grid:
  fixes get :: "'s \<Rightarrow> 'a list"
  assumes fit: "off + nH * nMW \<le> length (get s)" and Q: "Q s"
    and cell: "\<And>i j s'. i < nH \<Longrightarrow> j < nMW \<Longrightarrow> Q s' \<Longrightarrow> length (get s') = length (get s) \<Longrightarrow>
       (\<forall>p. off + i * nMW + j \<le> p \<longrightarrow> p < length (get s) \<longrightarrow> get s' ! p = get s ! p) \<Longrightarrow>
       \<exists>s''. cell (int i) (int j) s' = Inr s'' \<and> Q s'' \<and>
             get s'' = (get s')[off + i * nMW + j := V i j]"
  shows "\<exists>s'. forE 0 (int nH) (\<lambda>i. forE 0 (int nMW) (cell i)) s = Inr s' \<and> Q s' \<and>
              get s' = put_block off (concat (map (\<lambda>i. map (V i) [0..<nMW]) [0..<nH])) (get s)"
proof -
  let ?blk = "\<lambda>i. map (V i) [0..<nMW]"
  have "\<exists>s'. forE 0 (int nH) (\<lambda>i. forE 0 (int nMW) (cell i)) s = Inr s' \<and> Q s' \<and>
             get s' = put_block off (concat (map ?blk [0..<nat (int nH)])) (get s)"
  proof (rule forE_put_blocks[where S = nMW and Q = Q and get = get])
    show "0 \<le> int nH" by simp
    show "off + nat (int nH) * nMW \<le> length (get s)" using fit by simp
    show "length (?blk k) = nMW" for k by simp
    show "Q s" by (rule Q)
  next
    fix i' :: int and s' :: 's
    assume i': "0 \<le> i'" "i' < int nH" and Qs': "Q s'"
      and gs': "get s' = put_block off (concat (map ?blk [0..<nat i'])) (get s)"
    define i where "i = nat i'"
    have i: "i' = int i" "i < nH" using i' by (simp_all add: i_def)
    have lpre: "length (concat (map ?blk [0..<i])) = i * nMW"
      by (rule length_concat_blocks) simp
    have "(i + 1) * nMW \<le> nH * nMW" using i(2) by (intro mult_le_mono1) simp
    then have fit_i: "off + i * nMW + nMW \<le> length (get s)" using fit by simp
    have ls': "length (get s') = length (get s)"
      unfolding gs' i_def[symmetric] using lpre fit_i by (intro length_put_block) simp
    have after_s': "get s' ! p = get s ! p" if "off + i * nMW \<le> p" "p < length (get s)" for p
      unfolding gs' i_def[symmetric] using that lpre by (intro nth_put_block_after) simp_all
    let ?off' = "off + i * nMW"
    let ?b1 = "\<lambda>j. [V i j]"
    have "\<exists>s''. forE 0 (int nMW) (cell (int i)) s' = Inr s'' \<and> Q s'' \<and>
               get s'' = put_block ?off' (concat (map ?b1 [0..<nat (int nMW)])) (get s')"
    proof (rule forE_put_blocks[where S = 1 and Q = Q and get = get])
      show "0 \<le> int nMW" by simp
      show "?off' + nat (int nMW) * 1 \<le> length (get s')" using fit_i ls' by simp
      show "length (?b1 k) = 1" for k by simp
      show "Q s'" by (rule Qs')
    next
      fix j' :: int and s'' :: 's
      assume j': "0 \<le> j'" "j' < int nMW" and Qs'': "Q s''"
        and gs'': "get s'' = put_block ?off' (concat (map ?b1 [0..<nat j'])) (get s')"
      define j where "j = nat j'"
      have j: "j' = int j" "j < nMW" using j' by (simp_all add: j_def)
      have lpre': "length (concat (map ?b1 [0..<j])) = j * 1"
        by (rule length_concat_blocks) simp
      have fit_j: "?off' + j < length (get s')" using fit_i ls' j(2) by simp
      have ls'': "length (get s'') = length (get s)"
        unfolding gs'' j_def[symmetric] using lpre' fit_j ls'
        by (simp add: length_put_block)
      have after: "\<forall>p. off + i * nMW + j \<le> p \<longrightarrow> p < length (get s) \<longrightarrow> get s'' ! p = get s ! p"
      proof (intro allI impI)
        fix p assume p: "off + i * nMW + j \<le> p" "p < length (get s)"
        have "get s'' ! p = get s' ! p"
          unfolding gs'' j_def[symmetric] using p lpre' ls'
          by (intro nth_put_block_after) simp_all
        also have "\<dots> = get s ! p" using p by (intro after_s') simp_all
        finally show "get s'' ! p = get s ! p" .
      qed
      from cell[OF i(2) j(2) Qs'' ls'' after]
      obtain s3 where s3: "cell (int i) (int j) s'' = Inr s3" "Q s3"
        "get s3 = (get s'')[off + i * nMW + j := V i j]" by blast
      have eq: "(get s'')[?off' + j := V i j] = put_block (?off' + j) [V i j] (get s'')"
        using fit_j ls' ls'' by (intro put_block_single) simp
      have nj: "nat j' = j" by (simp add: j_def)
      show "\<exists>s3. cell (int i) j' s'' = Inr s3 \<and> Q s3 \<and>
                   get s3 = put_block (?off' + nat j' * 1) (?b1 (nat j')) (get s'')"
      proof (intro exI conjI)
        show "cell (int i) j' s'' = Inr s3" unfolding j(1) by (rule s3(1))
        show "Q s3" by (rule s3(2))
        show "get s3 = put_block (?off' + nat j' * 1) (?b1 (nat j')) (get s'')"
          unfolding nj using s3(3) eq by simp
      qed
    qed
    then obtain s4 where s4: "forE 0 (int nMW) (cell (int i)) s' = Inr s4" "Q s4"
      "get s4 = put_block ?off' (concat (map ?b1 [0..<nat (int nMW)])) (get s')" by blast
    have ni: "nat i' = i" by (simp add: i_def)
    show "\<exists>s''. forE 0 (int nMW) (cell i') s' = Inr s'' \<and> Q s'' \<and>
                 get s'' = put_block (off + nat i' * nMW) (?blk (nat i')) (get s')"
    proof (intro exI conjI)
      show "forE 0 (int nMW) (cell i') s' = Inr s4" unfolding i(1) by (rule s4(1))
      show "Q s4" by (rule s4(2))
      show "get s4 = put_block (off + nat i' * nMW) (?blk (nat i')) (get s')"
        unfolding ni using s4(3) by (simp add: concat_map_singleton)
    qed
  qed
  then show ?thesis by simp
qed





lemma nth_slice:
  assumes "k * S + S \<le> length xs" "p < S"
  shows "take S (drop (k * S) xs) ! p = xs ! (k * S + p)"
proof -
  have "take S (drop (k * S) xs) ! p = drop (k * S) xs ! p" using assms(2) by simp
  also have "\<dots> = xs ! (k * S + p)" using assms by (intro nth_drop) simp
  finally show ?thesis .
qed

lemma block_fits:
  fixes k B S :: nat
  assumes "k < B"
  shows "k * S + S \<le> B * S"
proof -
  have "(k + 1) * S \<le> B * S" using assms by (intro mult_le_mono1) simp
  then show ?thesis by simp
qed



subsection \<open>Contraction\<close>



text \<open>Without the bound there is no product: for a \<open>65536 \<times> 1\<close> column and a \<open>1 \<times> 65536\<close> row,
  whatever their buffers hold, the size of the result is \<open>2^32\<close> and its constructor
  overflows.\<close>

lemma dot_result_overflow:
  "dot use_blas \<lparr>height = 65536, width = 1, batch = 1, dim = 3, len = 65536, data = d\<rparr>
                \<lparr>height = 1, width = 65536, batch = 1, dim = 3, len = 65536, data = d'\<rparr> =
   Inl IntOverflow"
  by (simp add: dot_def Tensor3_checked_def mul_int_def INT_MAX_def)

subsection \<open>Average\<close>

lemma forE_accum:
  fixes d :: "('a::plus) list"
  assumes p: "p < length d" and n: "0 \<le> n"
    and x: "\<And>k. 0 \<le> k \<Longrightarrow> k < n \<Longrightarrow> rdx k = Inr (x (nat k))"
  shows "forE 0 n (\<lambda>k d. bindE (rd d (int p)) (\<lambda>acc. bindE (rdx k) (\<lambda>a. wr d (int p) (acc + a)))) d =
         Inr (d[p := foldl (\<lambda>acc k. acc + x k) (d ! p) [0..<nat n]])"
proof -
  let ?body = "\<lambda>k d. bindE (rd d (int p)) (\<lambda>acc. bindE (rdx k) (\<lambda>a. wr d (int p) (acc + a)))"
  let ?f = "\<lambda>acc k. acc + x k"
  have "\<exists>s'. forE 0 n ?body d = Inr s' \<and> s' = d[p := foldl ?f (d ! p) [0..<nat n]]"
  proof (rule forE_rule[where I = "\<lambda>k s. s = d[p := foldl ?f (d ! p) [0..<nat k]]"])
    show "0 \<le> n" by (rule n)
    show "d = d[p := foldl ?f (d ! p) [0..<nat 0]]" by simp
  next
    fix k and s :: "'a list"
    assume k: "0 \<le> k" "k < n" and s: "s = d[p := foldl ?f (d ! p) [0..<nat k]]"
    have ls: "p < length s" using p s by simp
    have sp: "s ! p = foldl ?f (d ! p) [0..<nat k]" using p s by simp
    have nk: "nat (k + 1) = Suc (nat k)" using k by simp
    have "?body k s = Inr (s[p := s ! p + x (nat k)])"
      using rd_int[OF ls] wr_int[OF ls] x[OF k] by simp
    moreover have "s[p := s ! p + x (nat k)] = d[p := foldl ?f (d ! p) [0..<nat (k + 1)]]"
      unfolding nk sp unfolding s by simp
    ultimately show "\<exists>s'. ?body k s = Inr s' \<and> s' = d[p := foldl ?f (d ! p) [0..<nat (k + 1)]]"
      by simp
  qed
  then show ?thesis by simp
qed

lemma average_cell_ok:
  fixes t :: "('a::{zero,plus,inverse}) Tensor"
  assumes H: "height t = int nH" and W: "width t = int nW" and B: "batch t = int nB"
    and lt: "length (data t) = nB * nH * nW"
    and i: "i < nH" and j: "j < nW" and ld: "length d = nH * nW"
  shows "average_cell to_float t (int i) (int j) d =
         Inr (d[i * nW + j :=
                foldl (\<lambda>acc k. acc + data t ! (k * nH * nW + i * nW + j)) 0 [0..<nB]
                  / to_float (int nB)])"
proof -
  let ?p = "i * nW + j"
  let ?x = "\<lambda>k. data t ! (k * nH * nW + i * nW + j)"
  have e: "int i * int nW + int j = int ?p" by simp
  have p: "?p < length d" using idx2_bound[OF i j] ld by simp
  have p0: "?p < length (d[?p := 0])" using p by simp
  have loop: "forE 0 (int nB) (\<lambda>k d. bindE (rd d (int ?p)) (\<lambda>acc.
                bindE (rd (data t) (k * int nW * int nH + int i * int nW + int j)) (\<lambda>a. wr d (int ?p) (acc + a))))
                (d[?p := 0]) =
              Inr ((d[?p := 0])[?p := foldl (\<lambda>acc k. acc + ?x k) ((d[?p := 0]) ! ?p) [0..<nat (int nB)]])"
  proof (rule forE_accum[OF p0])
    show "0 \<le> int nB" by simp
  next
    fix k :: int assume k: "0 \<le> k" "k < int nB"
    define nk where "nk = nat k"
    have nk: "k = int nk" "nk < nB" using k by (simp_all add: nk_def)
    have e1: "k * int nW * int nH + int i * int nW + int j = int (nk * nH * nW + i * nW + j)"
      using nk by (simp add: mult.commute mult.left_commute)
    have b1: "nk * nH * nW + i * nW + j < length (data t)"
      using idx3_bound[OF nk(2) i j] lt by simp
    have nn: "nat k = nk" by (simp add: nk_def)
    show "rd (data t) (k * int nW * int nH + int i * int nW + int j) = Inr (?x (nat k))"
      unfolding e1 nn by (rule rd_int[OF b1])
  qed
  let ?s = "foldl (\<lambda>acc k. acc + ?x k) 0 [0..<nB]"
  have loop': "forE 0 (int nB) (\<lambda>k d. bindE (rd d (int ?p)) (\<lambda>acc.
                bindE (rd (data t) (k * int nW * int nH + int i * int nW + int j)) (\<lambda>a. wr d (int ?p) (acc + a))))
                (d[?p := 0]) = Inr (d[?p := ?s])"
    using loop p by simp
  have ps: "?p < length (d[?p := ?s])" using p by simp
  have fin: "bindE (rd (d[?p := ?s]) (int ?p)) (\<lambda>s. wr (d[?p := ?s]) (int ?p) (s / to_float (int nB))) =
             Inr (d[?p := ?s / to_float (int nB)])"
    using rd_int[OF ps] wr_int[OF ps] p by simp
  show ?thesis
    unfolding average_cell_def H W B e
    by (simp only: wr_int[OF p] bindE.simps add.assoc[symmetric] loop' fin)
qed

lemma concat_rows:
  "concat (map (\<lambda>i. map (\<lambda>j. f (i * nW + j)) [0..<nW]) [0..<nH]) = map f [0..<nH * nW]"
proof (induction nH)
  case 0
  show ?case by simp
next
  case (Suc nH)
  have row: "map (\<lambda>j. f (nH * nW + j)) [0..<nW] = map f [nH * nW..<nH * nW + nW]"
  proof (rule nth_equalityI)
    show "length (map (\<lambda>j. f (nH * nW + j)) [0..<nW]) = length (map f [nH * nW..<nH * nW + nW])"
      by simp
  next
    fix i assume "i < length (map (\<lambda>j. f (nH * nW + j)) [0..<nW])"
    then have "i < nW" by simp
    then show "map (\<lambda>j. f (nH * nW + j)) [0..<nW] ! i = map f [nH * nW..<nH * nW + nW] ! i"
      by simp
  qed
  have split: "[0..<Suc nH * nW] = [0..<nH * nW] @ [nH * nW..<nH * nW + nW]"
    using upt_add_eq_append[of 0 "nH * nW" nW] by (simp add: add.commute)
  have "concat (map (\<lambda>i. map (\<lambda>j. f (i * nW + j)) [0..<nW]) [0..<Suc nH]) =
        concat (map (\<lambda>i. map (\<lambda>j. f (i * nW + j)) [0..<nW]) [0..<nH]) @
        map (\<lambda>j. f (nH * nW + j)) [0..<nW]" by simp
  also have "\<dots> = map f [0..<nH * nW] @ map f [nH * nW..<nH * nW + nW]"
    by (simp only: Suc.IH row)
  also have "\<dots> = map f [0..<Suc nH * nW]"
    by (simp only: split map_append)
  finally show ?case .
qed

text \<open>
  Claim C7 says that \<^verbatim>\<open>average()\<close> returns the mean of all elements. On the \<open>(2, 1, 2)\<close>
  tensor \<open>[1, 2, 3, 4]\<close>, whose mean is \<open>5/2\<close>, it returns the \<open>(1, 1, 2)\<close> tensor \<open>[2, 3]\<close>; the
  \<open>(1, 1, 2)\<close> tensor \<open>[1, 2]\<close>, whose mean is \<open>3/2\<close>, is returned as it is.
\<close>

theorem average_not_mean_of_all:
  "average real_of_int T212 =
     Inr \<lparr>height = 1, width = 2, batch = 1, dim = 3, len = 2, data = [2, 3]\<rparr> \<and>
   mean_all T212 = 5 / 2 \<and> mean_all T212 \<notin> set [2, 3] \<and>
   average real_of_int T112 = Inr T112 \<and> mean_all T112 = 3 / 2 \<and>
   mean_all T112 \<notin> set (data T112)"
  by code_simp

text \<open>
  Claim C7 as amended: \<^verbatim>\<open>average()\<close> averages over the batch axis only. A tensor of
  batch 1 is returned unchanged; otherwise the result is the \<open>(1, height, width)\<close> tensor
  whose entry at each position is the sum over the batch of the entries at that position
  divided by the batch size.
\<close>

theorem average_is_batch_mean:
  fixes t :: "('a::{zero,plus,inverse}) Tensor"
  assumes wt: "wf t"
  shows "average to_float t =
         (if batch t = 1 then Inr t
          else Inr \<lparr>height = height t, width = width t, batch = 1, dim = 3,
                    len = height t * width t * 1, data = batch_mean to_float t\<rparr>)"
proof (cases "batch t = 1")
  case True
  then show ?thesis by (simp add: average_def)
next
  case False
  define nH nW nB where "nH = nat (height t)" and "nW = nat (width t)" and "nB = nat (batch t)"
  have H: "height t = int nH" and W: "width t = int nW" and B: "batch t = int nB"
    using wt by (simp_all add: wf_def nH_def nW_def nB_def)
  have lt: "length (data t) = nB * nH * nW"
  proof -
    have "int (length (data t)) = int (nB * nH * nW)"
      using wt by (simp add: wf_def H W B mult.commute mult.left_commute)
    then show ?thesis by (simp only: of_nat_eq_iff)
  qed
  let ?z = "replicate (nH * nW) (0::'a)"
  let ?F = "\<lambda>p. foldl (\<lambda>acc k. acc + data t ! (k * nH * nW + p)) 0 [0..<nB] / to_float (int nB)"
  let ?V = "\<lambda>i j. ?F (i * nW + j)"
  have T3: "Tensor3 1 (height t) (width t) =
            Inr \<lparr>height = height t, width = width t, batch = 1, dim = 3,
                 len = height t * width t * 1, data = ?z\<rparr>"
  proof -
    have "nat (int nH * int nW) = nH * nW" by (simp add: nat_mult_distrib)
    moreover have "\<not> int nH * int nW < 0" by (simp add: not_less mult_nonneg_nonneg)
    ultimately show ?thesis by (simp add: Tensor3_def Let_def H W)
  qed
  have "\<exists>s'. forE 0 (int nH) (\<lambda>i. forE 0 (int nW) (average_cell to_float t i)) ?z = Inr s' \<and>
             True \<and> id s' = put_block 0 (concat (map (\<lambda>i. map (?V i) [0..<nW]) [0..<nH])) (id ?z)"
  proof (rule forE_grid[where Q = "\<lambda>_. True" and get = id])
    show "0 + nH * nW \<le> length (id ?z)" by simp
    show True by simp
  next
    fix i j and s' :: "'a list"
    assume i: "i < nH" and j: "j < nW" and ls: "length (id s') = length (id ?z)"
    have ld: "length s' = nH * nW" using ls by simp
    have "average_cell to_float t (int i) (int j) s' =
          Inr (s'[i * nW + j := foldl (\<lambda>acc k. acc + data t ! (k * nH * nW + i * nW + j)) 0 [0..<nB]
                  / to_float (int nB)])"
      by (rule average_cell_ok[OF H W B lt i j ld])
    then show "\<exists>s''. average_cell to_float t (int i) (int j) s' = Inr s'' \<and> True \<and>
                 id s'' = (id s')[0 + i * nW + j := ?V i j]"
      by (simp add: add.assoc)
  qed
  then obtain s' where s': "forE 0 (int nH) (\<lambda>i. forE 0 (int nW) (average_cell to_float t i)) ?z = Inr s'"
    "s' = put_block 0 (concat (map (\<lambda>i. map (?V i) [0..<nW]) [0..<nH])) ?z" by auto
  have flat: "concat (map (\<lambda>i. map (?V i) [0..<nW]) [0..<nH]) = map ?F [0..<nH * nW]"
    by (rule concat_rows)
  have "put_block 0 (map ?F [0..<nH * nW]) ?z = map ?F [0..<nH * nW]"
    by (intro put_block_all) simp
  then have res: "s' = map ?F [0..<nH * nW]" using s'(2) flat by simp
  have "map ?F [0..<nH * nW] = batch_mean to_float t"
    unfolding batch_mean_def
  proof -
    have bs: "batch_slice t k = take (nH * nW) (drop (k * (nH * nW)) (data t))" for k
      by (simp add: batch_slice_def H W nat_mult_distrib)
    have "?F p = foldl (\<lambda>acc k. acc + batch_slice t k ! p) 0 [0..<nat (batch t)] / to_float (batch t)"
      if p: "p < nH * nW" for p
    proof -
      have "foldl (\<lambda>acc k. acc + data t ! (k * nH * nW + p)) 0 [0..<nB] =
            foldl (\<lambda>acc k. acc + batch_slice t k ! p) 0 [0..<nB]"
      proof (rule foldl_cong[OF refl refl])
        fix a :: 'a and k assume "k \<in> set [0..<nB]"
        then have k: "k < nB" by simp
        have "take (nH * nW) (drop (k * (nH * nW)) (data t)) ! p = data t ! (k * (nH * nW) + p)"
          using block_fits[OF k, of "nH * nW"] lt p by (intro nth_slice) (simp_all add: mult.assoc)
        then show "a + data t ! (k * nH * nW + p) = a + batch_slice t k ! p"
          by (simp add: bs mult.assoc)
      qed
      then show ?thesis by (simp add: B)
    qed
    then show "map ?F [0..<nH * nW] =
      map (\<lambda>p. foldl (\<lambda>acc k. acc + batch_slice t k ! p) 0 [0..<nat (batch t)] / to_float (batch t))
          [0..<nat (height t * width t)]"
      by (simp add: H W nat_mult_distrib)
  qed
  then have "s' = batch_mean to_float t" using res by simp
  then show ?thesis
    unfolding average_def T3 using False s'(1) by (simp add: H W)
qed

theorem average_is_batch_mean_witness:
  "wf T212 \<and>
   average real_of_int T212 =
     Inr \<lparr>height = 1, width = 2, batch = 1, dim = 3, len = 2, data = [2, 3]\<rparr>"
proof -
  have w: "wf T212" by (simp add: wf_def T212_def)
  have v: "batch_mean real_of_int T212 = [2, 3]" by code_simp
  show ?thesis
    using w average_is_batch_mean[OF w, of real_of_int] v by (simp add: T212_def)
qed

subsection \<open>The softmax derivative\<close>

lemma softmaxPrime_cell_ok:
  fixes xp d pp :: "('a::{zero,one,plus,minus,uminus,times}) list"
  assumes j: "j < W" and lx: "I + W \<le> length xp" and ld: "I + W \<le> length d"
    and lp: "I + W \<le> length pp"
  shows "softmaxPrime_cell True xp d (int W) (int I) (int j) pp =
         Inr (pp[I + j := jvp_entry xp d W I j])"
proof -
  let ?f = "\<lambda>sum l. sum + (if j = l then xp ! (I + l) * (1 - xp ! (I + j))
                               else (- xp ! (I + l)) * xp ! (I + j)) * d ! (I + l)"
  have rj: "rd xp (int I + int j) = Inr (xp ! (I + j))"
    using rd_int[of "I + j" xp] j lx by simp
  have acc: "forE 0 (int W) (\<lambda>l sum.
       bindE (if int j = l then
                bindE (rd xp (int I + l)) (\<lambda>xl. bindE (rd xp (int I + int j)) (\<lambda>xj. Inr (xl * (1 - xj))))
              else
                bindE (rd xp (int I + l)) (\<lambda>xl. bindE (rd xp (int I + int j)) (\<lambda>xj. Inr ((- xl) * xj)))) (\<lambda>val.
       bindE (if True then bindE (rd d (int I + l)) (\<lambda>dl. Inr (val * dl)) else Inr val) (\<lambda>val.
         Inr (sum + val)))) 0 = Inr (foldl ?f 0 [0..<nat (int W)])"
  proof (rule forE_foldl[where f = ?f and n = "int W"])
    show "0 \<le> int W" by simp
  next
    fix l :: int and w :: 'a assume l: "0 \<le> l" "l < int W"
    define nl where "nl = nat l"
    have nl: "l = int nl" "nl < W" using l by (simp_all add: nl_def)
    have nn: "nat l = nl" by (simp add: nl_def)
    have rl: "rd xp (int I + l) = Inr (xp ! (I + nl))"
      using rd_int[of "I + nl" xp] nl lx by simp
    have rdl: "rd d (int I + l) = Inr (d ! (I + nl))"
      using rd_int[of "I + nl" d] nl ld by simp
    have c: "(int j = l) = (j = nl)" using nl by simp
    show "bindE (if int j = l then
                bindE (rd xp (int I + l)) (\<lambda>xl. bindE (rd xp (int I + int j)) (\<lambda>xj. Inr (xl * (1 - xj))))
              else
                bindE (rd xp (int I + l)) (\<lambda>xl. bindE (rd xp (int I + int j)) (\<lambda>xj. Inr ((- xl) * xj)))) (\<lambda>val.
       bindE (if True then bindE (rd d (int I + l)) (\<lambda>dl. Inr (val * dl)) else Inr val) (\<lambda>val.
         Inr (w + val))) = Inr (?f w (nat l))"
      unfolding nn c rl rj rdl by (cases "j = nl") simp_all
  qed
  have pos: "wr pp (int I + int j) v = Inr (pp[I + j := v])" for v
    using wr_int[of "I + j" pp v] j lp by simp
  show ?thesis
    unfolding softmaxPrime_cell_def jvp_entry_def
    using acc pos by simp
qed

lemma forE_flat:
  fixes d :: "'a list"
  assumes fit: "off + n * S \<le> length d"
    and body: "\<And>k d'. k < n \<Longrightarrow> length d' = length d \<Longrightarrow>
                 body (int k) d' = Inr (put_block (off + k * S) (map (\<lambda>q. F (off + k * S + q)) [0..<S]) d')"
  shows "forE 0 (int n) body d = Inr (put_block off (map (\<lambda>q. F (off + q)) [0..<n * S]) d)"
proof -
  let ?blk = "\<lambda>k. map (\<lambda>j. F (off + (k * S + j))) [0..<S]"
  have "\<exists>s'. forE 0 (int n) body d = Inr s' \<and> True \<and>
             id s' = put_block off (concat (map ?blk [0..<nat (int n)])) (id d)"
  proof (rule forE_put_blocks[where S = S and Q = "\<lambda>_. True" and get = id])
    show "0 \<le> int n" by simp
    show "off + nat (int n) * S \<le> length (id d)" using fit by simp
    show "length (?blk k) = S" for k by simp
    show True by simp
  next
    fix k' :: int and s' :: "'a list"
    assume k': "0 \<le> k'" "k' < int n"
      and gs': "id s' = put_block off (concat (map ?blk [0..<nat k'])) (id d)"
    define k where "k = nat k'"
    have k: "k' = int k" "k < n" using k' by (simp_all add: k_def)
    have nk: "nat k' = k" by (simp add: k_def)
    have lpre: "length (concat (map ?blk [0..<k])) = k * S"
      by (rule length_concat_blocks) simp
    have "k * S + S \<le> n * S" by (rule block_fits[OF k(2)])
    then have "off + length (concat (map ?blk [0..<k])) \<le> length d" using fit lpre by simp
    then have ls': "length s' = length d"
      using gs' nk by (simp add: length_put_block)
    have "body (int k) s' = Inr (put_block (off + k * S) (map (\<lambda>q. F (off + k * S + q)) [0..<S]) s')"
      by (rule body[OF k(2) ls'])
    then show "\<exists>s''. body k' s' = Inr s'' \<and> True \<and>
                 id s'' = put_block (off + nat k' * S) (?blk (nat k')) (id s')"
      unfolding nk k(1) by (simp add: add.assoc)
  qed
  then have "forE 0 (int n) body d = Inr (put_block off (concat (map ?blk [0..<n])) d)"
    by auto
  moreover have "concat (map ?blk [0..<n]) = map (\<lambda>q. F (off + q)) [0..<n * S]"
    by (rule concat_rows[where f = "\<lambda>q. F (off + q)"])
  ultimately show ?thesis by simp
qed

lemma jvp_at_row:
  assumes "W dvd I" "j < W"
  shows "jvp_at xp d W (I + j) = jvp_entry xp d W I j"
proof -
  have "(I + j) mod W = j" using assms by (metis dvd_eq_mod_eq_0 mod_add_left_eq add_0 mod_less)
  then show ?thesis by (simp add: jvp_at_def)
qed

lemma softmaxPrime_rows:
  fixes xp d s :: "('a::{zero,one,plus,minus,uminus,times}) list"
  assumes dv: "W dvd I" and lx: "I + W \<le> length xp" and ld: "I + W \<le> length d"
    and ls: "I + W \<le> length s"
  shows "forE 0 (int W) (\<lambda>j. softmaxPrime_cell True xp d (int W) (int I) j) s =
         Inr (put_block I (map (\<lambda>q. jvp_at xp d W (I + q)) [0..<W]) s)"
proof -
  have "forE 0 (int W) (\<lambda>j. softmaxPrime_cell True xp d (int W) (int I) j) s =
        Inr (put_block I (map (\<lambda>q. jvp_at xp d W (I + q)) [0..<W * 1]) s)"
  proof (rule forE_flat)
    show "I + W * 1 \<le> length s" using ls by simp
  next
    fix j and s' :: "'a list" assume j: "j < W" and ls': "length s' = length s"
    have "softmaxPrime_cell True xp d (int W) (int I) (int j) s' =
          Inr (s'[I + j := jvp_entry xp d W I j])"
      using ls ls' by (intro softmaxPrime_cell_ok[OF j lx ld]) simp
    moreover have "s'[I + j := jvp_entry xp d W I j] = put_block (I + j) [jvp_entry xp d W I j] s'"
      using j ls ls' by (intro put_block_single) simp
    ultimately show "softmaxPrime_cell True xp d (int W) (int I) (int j) s' =
          Inr (put_block (I + j * 1) (map (\<lambda>q. jvp_at xp d W (I + j * 1 + q)) [0..<1]) s')"
      by (simp add: jvp_at_row[OF dv j])
  qed
  then show ?thesis by simp
qed

lemma softmaxPrime_level_i:
  fixes xp d s :: "('a::{zero,one,plus,minus,uminus,times}) list"
  assumes dv: "W dvd off" and lx: "off + H * W \<le> length xp" and ld: "off + H * W \<le> length d"
    and ls: "off + H * W \<le> length s"
  shows "forE 0 (int H) (\<lambda>i. let I = int off + i * int W in
           forE 0 (int W) (\<lambda>j. softmaxPrime_cell True xp d (int W) I j)) s =
         Inr (put_block off (map (\<lambda>q. jvp_at xp d W (off + q)) [0..<H * W]) s)"
proof (rule forE_flat)
  show "off + H * W \<le> length s" by (rule ls)
next
  fix i and s' :: "'a list" assume i: "i < H" and ls': "length s' = length s"
  have fit: "i * W + W \<le> H * W" by (rule block_fits[OF i])
  have e: "int off + int i * int W = int (off + i * W)" by simp
  have "forE 0 (int W) (\<lambda>j. softmaxPrime_cell True xp d (int W) (int (off + i * W)) j) s' =
        Inr (put_block (off + i * W) (map (\<lambda>q. jvp_at xp d W (off + i * W + q)) [0..<W]) s')"
    using dv fit lx ld ls ls' by (intro softmaxPrime_rows) simp_all
  then show "(let I = int off + int i * int W in
           forE 0 (int W) (\<lambda>j. softmaxPrime_cell True xp d (int W) I j)) s' =
        Inr (put_block (off + i * W) (map (\<lambda>q. jvp_at xp d W (off + i * W + q)) [0..<W]) s')"
    unfolding Let_def e .
qed

lemma softmaxPrime_level_c:
  fixes xp d s :: "('a::{zero,one,plus,minus,uminus,times}) list"
  assumes dv: "W dvd off" and lx: "off + C * (H * W) \<le> length xp"
    and ld: "off + C * (H * W) \<le> length d" and ls: "off + C * (H * W) \<le> length s"
  shows "forE 0 (int C) (\<lambda>c. let C' = int off + c * int H * int W in
           forE 0 (int H) (\<lambda>i. let I = C' + i * int W in
             forE 0 (int W) (\<lambda>j. softmaxPrime_cell True xp d (int W) I j))) s =
         Inr (put_block off (map (\<lambda>q. jvp_at xp d W (off + q)) [0..<C * (H * W)]) s)"
proof (rule forE_flat)
  show "off + C * (H * W) \<le> length s" by (rule ls)
next
  fix c and s' :: "'a list" assume c: "c < C" and ls': "length s' = length s"
  have fit: "c * (H * W) + H * W \<le> C * (H * W)" by (rule block_fits[OF c])
  have e: "int off + int c * int H * int W = int (off + c * (H * W))" by (simp add: mult.assoc)
  have dv': "W dvd off + c * (H * W)" using dv by simp
  have "forE 0 (int H) (\<lambda>i. let I = int (off + c * (H * W)) + i * int W in
           forE 0 (int W) (\<lambda>j. softmaxPrime_cell True xp d (int W) I j)) s' =
        Inr (put_block (off + c * (H * W))
               (map (\<lambda>q. jvp_at xp d W (off + c * (H * W) + q)) [0..<H * W]) s')"
    using fit lx ld ls ls' by (intro softmaxPrime_level_i[OF dv']) simp_all
  then show "(let C' = int off + int c * int H * int W in
           forE 0 (int H) (\<lambda>i. let I = C' + i * int W in
             forE 0 (int W) (\<lambda>j. softmaxPrime_cell True xp d (int W) I j))) s' =
        Inr (put_block (off + c * (H * W))
               (map (\<lambda>q. jvp_at xp d W (off + c * (H * W) + q)) [0..<H * W]) s')"
    unfolding Let_def e .
qed

lemma softmaxPrime_loops:
  fixes xp d s :: "('a::{zero,one,plus,minus,uminus,times}) list"
  assumes lx: "B * (C * (H * W)) \<le> length xp" and ld: "B * (C * (H * W)) \<le> length d"
    and ls: "length s = B * (C * (H * W))"
  shows "forE 0 (int B) (\<lambda>k. let K = k * int C * int H * int W in
           forE 0 (int C) (\<lambda>c. let C' = K + c * int H * int W in
             forE 0 (int H) (\<lambda>i. let I = C' + i * int W in
               forE 0 (int W) (\<lambda>j. softmaxPrime_cell True xp d (int W) I j)))) s =
         Inr (map (jvp_at xp d W) [0..<B * (C * (H * W))])"
proof -
  have "forE 0 (int B) (\<lambda>k. let K = k * int C * int H * int W in
           forE 0 (int C) (\<lambda>c. let C' = K + c * int H * int W in
             forE 0 (int H) (\<lambda>i. let I = C' + i * int W in
               forE 0 (int W) (\<lambda>j. softmaxPrime_cell True xp d (int W) I j)))) s =
        Inr (put_block 0 (map (\<lambda>q. jvp_at xp d W (0 + q)) [0..<B * (C * (H * W))]) s)"
  proof (rule forE_flat)
    show "0 + B * (C * (H * W)) \<le> length s" using ls by simp
  next
    fix k and s' :: "'a list" assume k: "k < B" and ls': "length s' = length s"
    have fit: "k * (C * (H * W)) + C * (H * W) \<le> B * (C * (H * W))" by (rule block_fits[OF k])
    have e: "int k * int C * int H * int W = int (0 + k * (C * (H * W)))" by (simp add: mult.assoc)
    have dv': "W dvd 0 + k * (C * (H * W))" by simp
    have "forE 0 (int C) (\<lambda>c. let C' = int (0 + k * (C * (H * W))) + c * int H * int W in
             forE 0 (int H) (\<lambda>i. let I = C' + i * int W in
               forE 0 (int W) (\<lambda>j. softmaxPrime_cell True xp d (int W) I j))) s' =
          Inr (put_block (0 + k * (C * (H * W)))
               (map (\<lambda>q. jvp_at xp d W (0 + k * (C * (H * W)) + q)) [0..<C * (H * W)]) s')"
      using fit lx ld ls ls' by (intro softmaxPrime_level_c[OF dv']) simp_all
    then show "(let K = int k * int C * int H * int W in
           forE 0 (int C) (\<lambda>c. let C' = K + c * int H * int W in
             forE 0 (int H) (\<lambda>i. let I = C' + i * int W in
               forE 0 (int W) (\<lambda>j. softmaxPrime_cell True xp d (int W) I j)))) s' =
          Inr (put_block (0 + k * (C * (H * W)))
               (map (\<lambda>q. jvp_at xp d W (0 + k * (C * (H * W)) + q)) [0..<C * (H * W)]) s')"
      unfolding Let_def e .
  qed
  moreover have "put_block 0 (map (\<lambda>q. jvp_at xp d W (0 + q)) [0..<B * (C * (H * W))]) s =
                 map (jvp_at xp d W) [0..<B * (C * (H * W))]"
    using ls by (simp add: put_block_all)
  ultimately show ?thesis by simp
qed

lemma foldl_plus_sum:
  fixes f :: "nat \<Rightarrow> 'a::comm_monoid_add"
  shows "foldl (\<lambda>s l. s + f l) a [0..<n] = a + (\<Sum>l<n. f l)"
proof (induction n)
  case 0
  show ?case by simp
next
  case (Suc n)
  then show ?case by (simp add: add.assoc)
qed

lemma softmaxPrime_result:
  fixes x :: "('a::{zero,one,plus,minus,uminus,times}) Tensor4"
  assumes wx: "length (t_data x) = getDataLen (t_dim x)"
    and wd: "getDataLen (t_dim x) \<le> length (t_data derivative)"
    and wo: "uninitialized output \<or> length (t_data output) = getDataLen (t_dim x)"
    and isd: "t_dim derivative \<noteq> TensorDim0"
  shows "softmaxPrime TensorDim0 fresh x output derivative =
         Inr ((if uninitialized output then Tensor_of_dim fresh (t_dim x) else output)
               \<lparr>t_data := map (jvp_at (t_data x) (t_data derivative) (d_width (t_dim x)))
                            [0..<getDataLen (t_dim x)]\<rparr>)"
proof -
  let ?B = "d_batch (t_dim x)" and ?C = "d_channel (t_dim x)"
  let ?H = "d_height (t_dim x)" and ?W = "d_width (t_dim x)"
  let ?out = "if uninitialized output then Tensor_of_dim fresh (t_dim x) else output"
  have n: "getDataLen (t_dim x) = ?B * (?C * (?H * ?W))" by (simp add: getDataLen_def mult.assoc)
  have lo: "length (t_data ?out) = ?B * (?C * (?H * ?W))"
    using wo n by (auto simp: Tensor_of_dim_def)
  have "forE 0 (int ?B) (\<lambda>k. let K = k * int ?C * int ?H * int ?W in
           forE 0 (int ?C) (\<lambda>c. let C' = K + c * int ?H * int ?W in
             forE 0 (int ?H) (\<lambda>i. let I = C' + i * int ?W in
               forE 0 (int ?W) (\<lambda>j. softmaxPrime_cell True (t_data x) (t_data derivative)
                  (int ?W) I j)))) (t_data ?out) =
         Inr (map (jvp_at (t_data x) (t_data derivative) ?W) [0..<?B * (?C * (?H * ?W))])"
    using wx wd n by (intro softmaxPrime_loops[OF _ _ lo]) simp_all
  then show ?thesis
    unfolding softmaxPrime_def Let_def using isd n by simp
qed

text \<open>
  Claim C8 states the Jacobian-vector product for every batch row. The loops of
  \<^verbatim>\<open>softmaxPrime\<close> couple only the \<open>width\<close> elements of one (batch, channel, height) row.
  For the dimension \<open>(1, 1, 2, 1)\<close>, the softmax output \<open>[1/4, 3/4]\<close> and the gradient \<open>[1, 2]\<close>
  the code returns \<open>[3/16, 3/8]\<close>, while the product over the batch row is \<open>-3/16\<close> at
  index 0 and \<open>3/16\<close> at index 1.
\<close>

theorem softmaxPrime_not_over_batch_row:
  "softmaxPrime D0 7 X21 O4 G21 =
     Inr \<lparr>t_dim = \<lparr>d_batch = 1, d_channel = 1, d_height = 2, d_width = 1\<rparr>,
          t_data = [3 / 16, 3 / 8]\<rparr> \<and>
   jvp_batch_row (t_data X21) (t_data G21) 2 0 0 = - (3 / 16) \<and>
   jvp_batch_row (t_data X21) (t_data G21) 2 0 1 = 3 / 16"
  by code_simp

text \<open>
  Claim C8 as amended: when an upstream gradient is given (the derivative's dimension is
  not the default one), \<^verbatim>\<open>softmaxPrime\<close> returns a tensor whose entry at index \<open>j\<close> of every
  row of \<open>width\<close> elements is the sum over the \<open>l\<close> of that row of \<open>val * d[l]\<close>, where
  \<open>val = x[l] * (1 - x[j])\<close> when \<open>l = j\<close> and \<open>val = - x[l] * x[j]\<close> otherwise, stated in exact
  arithmetic (any commutative ring, in particular the reals). A row is one of the
  \<open>batch * channel * height\<close> runs of \<open>width\<close> consecutive elements; it is the batch row
  when \<open>channel = height = 1\<close>.
\<close>

theorem softmaxPrime_jacobian:
  fixes x :: "('a::comm_ring_1) Tensor4"
  assumes wx: "length (t_data x) = getDataLen (t_dim x)"
    and wd: "getDataLen (t_dim x) \<le> length (t_data derivative)"
    and wo: "uninitialized output \<or> length (t_data output) = getDataLen (t_dim x)"
    and isd: "t_dim derivative \<noteq> TensorDim0"
  shows "\<exists>out. softmaxPrime TensorDim0 fresh x output derivative = Inr out \<and>
           length (t_data out) = getDataLen (t_dim x) \<and>
           (\<forall>r j. r < d_batch (t_dim x) * d_channel (t_dim x) * d_height (t_dim x) \<longrightarrow>
                  j < d_width (t_dim x) \<longrightarrow>
              t_data out ! (r * d_width (t_dim x) + j) =
                (\<Sum>l<d_width (t_dim x).
                   (if l = j
                    then t_data x ! (r * d_width (t_dim x) + l) *
                           (1 - t_data x ! (r * d_width (t_dim x) + j))
                    else - t_data x ! (r * d_width (t_dim x) + l) *
                           t_data x ! (r * d_width (t_dim x) + j)) *
                   t_data derivative ! (r * d_width (t_dim x) + l)))"
proof -
  let ?W = "d_width (t_dim x)"
  let ?R = "d_batch (t_dim x) * d_channel (t_dim x) * d_height (t_dim x)"
  let ?out = "(if uninitialized output then Tensor_of_dim fresh (t_dim x) else output)
               \<lparr>t_data := map (jvp_at (t_data x) (t_data derivative) ?W) [0..<getDataLen (t_dim x)]\<rparr>"
  have run: "softmaxPrime TensorDim0 fresh x output derivative = Inr ?out"
    by (rule softmaxPrime_result[OF wx wd wo isd])
  have n: "getDataLen (t_dim x) = ?R * ?W" by (simp add: getDataLen_def)
  have "t_data ?out ! (r * ?W + j) =
        (\<Sum>l<?W. (if l = j then t_data x ! (r * ?W + l) * (1 - t_data x ! (r * ?W + j))
                   else - t_data x ! (r * ?W + l) * t_data x ! (r * ?W + j)) *
                  t_data derivative ! (r * ?W + l))"
    if r: "r < ?R" and j: "j < ?W" for r j
  proof -
    have p: "r * ?W + j < getDataLen (t_dim x)" unfolding n by (rule idx2_bound[OF r j])
    have "t_data ?out ! (r * ?W + j) = jvp_at (t_data x) (t_data derivative) ?W (r * ?W + j)"
      using p by simp
    also have "\<dots> = jvp_entry (t_data x) (t_data derivative) ?W (r * ?W) j"
      by (rule jvp_at_row[OF _ j]) simp
    also have "\<dots> = 0 + (\<Sum>l<?W. (if j = l then t_data x ! (r * ?W + l) * (1 - t_data x ! (r * ?W + j))
                   else - t_data x ! (r * ?W + l) * t_data x ! (r * ?W + j)) *
                  t_data derivative ! (r * ?W + l))"
      unfolding jvp_entry_def by (rule foldl_plus_sum)
    also have "\<dots> = (\<Sum>l<?W. (if l = j then t_data x ! (r * ?W + l) * (1 - t_data x ! (r * ?W + j))
                   else - t_data x ! (r * ?W + l) * t_data x ! (r * ?W + j)) *
                  t_data derivative ! (r * ?W + l))"
      by (simp add: eq_commute[of j])
    finally show ?thesis .
  qed
  moreover have "length (t_data ?out) = getDataLen (t_dim x)" by simp
  ultimately show ?thesis using run by blast
qed

theorem softmaxPrime_jacobian_witness:
  "length (t_data X4) = getDataLen (t_dim X4) \<and>
   getDataLen (t_dim X4) \<le> length (t_data G4) \<and>
   (uninitialized O4 \<or> length (t_data O4) = getDataLen (t_dim X4)) \<and>
   t_dim G4 \<noteq> D0 \<and>
   softmaxPrime D0 7 X4 O4 G4 =
     Inr \<lparr>t_dim = \<lparr>d_batch = 2, d_channel = 1, d_height = 1, d_width = 2\<rparr>,
          t_data = [- (3 / 16), 3 / 16, - (1 / 2), 1 / 2]\<rparr>"
proof -
  have h: "length (t_data X4) = getDataLen (t_dim X4)"
    "getDataLen (t_dim X4) \<le> length (t_data G4)"
    "uninitialized O4 \<or> length (t_data O4) = getDataLen (t_dim X4)"
    "t_dim G4 \<noteq> D0"
    by (simp_all add: X4_def G4_def O4_def D0_def getDataLen_def uninitialized_def)
  have ev: "softmaxPrime D0 7 X4 O4 G4 =
     Inr \<lparr>t_dim = \<lparr>d_batch = 2, d_channel = 1, d_height = 1, d_width = 2\<rparr>,
          t_data = [- (3 / 16), 3 / 16, - (1 / 2), 1 / 2]\<rparr>"
    by code_simp
  show ?thesis
    using h softmaxPrime_jacobian[OF h, of 7] ev by simp
qed

subsection \<open>Saving and reading\<close>

lemma bytes_float_bytes: "bytes_float (float_bytes w) = w"
proof (rule bit_word_eqI)
  fix n assume n: "n < LENGTH(32)"
  consider "n < 8" | "8 \<le> n" "n < 16" | "16 \<le> n" "n < 24" | "24 \<le> n" "n < 32"
    using n by fastforce
  then show "bit (bytes_float (float_bytes w)) n = bit w n"
  proof cases
    case 1
    then show ?thesis by (simp add: bytes_float_def float_bytes_def bit_simps)
  next
    case 2
    then have "8 + (n - 8) = n" "\<not> n < 8" by simp_all
    with 2 show ?thesis by (auto simp: bytes_float_def float_bytes_def bit_simps)
  next
    case 3
    then have "16 + (n - 16) = n" "\<not> n < 16" "\<not> n < 8" "\<not> n - 8 < 8" by simp_all
    with 3 show ?thesis by (auto simp: bytes_float_def float_bytes_def bit_simps)
  next
    case 4
    then have "24 + (n - 24) = n" "\<not> n < 24" "\<not> n < 8" "\<not> n - 8 < 8" "\<not> n - 16 < 8"
      by simp_all
    with 4 show ?thesis by (auto simp: bytes_float_def float_bytes_def bit_simps)
  qed
qed

lemma length_float_bytes [simp]: "length (float_bytes w) = 4"
  by (simp add: float_bytes_def)

lemma length_concat_float_bytes: "length (concat (map float_bytes xs)) = 4 * length xs"
  by (induction xs) simp_all

lemma save_writes:
  assumes wt: "wf t" and g: "o_good file"
  shows "save t file = Inr (file\<lparr>o_bytes := o_bytes file @ concat (map float_bytes (data t))\<rparr>)"
proof -
  let ?body = "\<lambda>i file. bindE (rd (data t) i) (\<lambda>x. Inr (ostream_write file (float_bytes x)))"
  let ?I = "\<lambda>k s. s = file\<lparr>o_bytes := o_bytes file @ concat (map float_bytes (take (nat k) (data t)))\<rparr>"
  have n: "0 \<le> len t" by (rule wf_len_nonneg[OF wt])
  have l: "length (data t) = nat (len t)" by (rule wf_length[OF wt])
  have "\<exists>s'. forE 0 (len t) ?body file = Inr s' \<and> ?I (len t) s'"
  proof (rule forE_rule[where I = ?I])
    show "0 \<le> len t" by (rule n)
    show "?I 0 file" by simp
  next
    fix k s assume k: "0 \<le> k" "k < len t" and s: "?I k s"
    have kl: "nat k < length (data t)" using k l by simp
    have r: "rd (data t) k = Inr (data t ! nat k)" using rd_int[OF kl] k by simp
    have t: "take (nat (k + 1)) (data t) = take (nat k) (data t) @ [data t ! nat k]"
      using take_Suc_conv_app_nth[OF kl] k by (simp add: nat_add_distrib)
    have gs: "o_good s" using s g by simp
    show "\<exists>s'. ?body k s = Inr s' \<and> ?I (k + 1) s'"
      unfolding r t using s gs by (simp add: ostream_write_def)
  qed
  then show ?thesis using l by (simp add: save_def)
qed

lemma overwrite_next:
  assumes "k < length xs" "length d0 = length xs"
  shows "(take k xs @ drop k d0)[k := xs ! k] = take (Suc k) xs @ drop (Suc k) d0"
proof (rule nth_equalityI)
  show "length ((take k xs @ drop k d0)[k := xs ! k]) = length (take (Suc k) xs @ drop (Suc k) d0)"
    using assms by simp
next
  fix i assume "i < length ((take k xs @ drop k d0)[k := xs ! k])"
  then have i: "i < length xs" using assms by simp
  consider "i < k" | "i = k" | "k < i" by linarith
  then show "(take k xs @ drop k d0)[k := xs ! k] ! i = (take (Suc k) xs @ drop (Suc k) d0) ! i"
  proof cases
    case 1
    then show ?thesis using assms i by (simp add: nth_append)
  next
    case 2
    then show ?thesis using assms i by (simp add: nth_append)
  next
    case 3
    then have "\<not> i < k" "\<not> i < Suc k" "Suc k + (i - Suc k) = i" "k + (i - k) = i" by simp_all
    then show ?thesis using assms i 3 by (simp add: nth_append)
  qed
qed

lemma read4_ok:
  assumes "i_good s" "i_bytes s = float_bytes x @ rest'"
  shows "istream_read4 s old = (x, s\<lparr>i_bytes := rest'\<rparr>)"
  using assms by (simp add: istream_read4_def bytes_float_bytes)

lemma read_consumes:
  assumes wt: "wf t" and g: "i_good file"
    and bytes: "i_bytes file = concat (map float_bytes xs) @ rest"
    and lx: "length xs = nat (len t)"
  shows "read t file = Inr (t\<lparr>data := xs\<rparr>, file\<lparr>i_bytes := rest\<rparr>)"
proof -
  let ?body = "\<lambda>i (d, file). bindE (rd d i) (\<lambda>old.
                let (v, file') = istream_read4 file old in
                bindE (wr d i v) (\<lambda>d'. Inr (d', file')))"
  let ?I = "\<lambda>k s. s = (take (nat k) xs @ drop (nat k) (data t),
                        file\<lparr>i_bytes := concat (map float_bytes (drop (nat k) xs)) @ rest\<rparr>)"
  have n: "0 \<le> len t" by (rule wf_len_nonneg[OF wt])
  have l: "length (data t) = nat (len t)" by (rule wf_length[OF wt])
  have "\<exists>s'. forE 0 (len t) ?body (data t, file) = Inr s' \<and> ?I (len t) s'"
  proof (rule forE_rule[where I = ?I])
    show "0 \<le> len t" by (rule n)
    show "?I 0 (data t, file)" using bytes by simp
  next
    fix k and s :: "32 word list \<times> ifstream"
    assume k: "0 \<le> k" "k < len t" and s: "?I k s"
    define j where "j = nat k"
    have j: "j < length xs" "k = int j" using k lx by (simp_all add: j_def)
    have nk: "nat (k + 1) = Suc j" using k by (simp add: j_def)
    let ?d = "take j xs @ drop j (data t)"
    let ?f = "file\<lparr>i_bytes := concat (map float_bytes (drop j xs)) @ rest\<rparr>"
    have s': "s = (?d, ?f)" using s by (simp add: j_def)
    have ld: "j < length ?d" using j l lx by simp
    have r: "rd ?d k = Inr (?d ! j)" unfolding j(2) by (rule rd_int[OF ld])
    have w: "wr ?d k v = Inr (?d[j := v])" for v unfolding j(2) by (rule wr_int[OF ld])
    have dr: "drop j xs = xs ! j # drop (Suc j) xs" by (rule Cons_nth_drop_Suc[OF j(1), symmetric])
    have rd4: "istream_read4 ?f (?d ! j) =
               (xs ! j, file\<lparr>i_bytes := concat (map float_bytes (drop (Suc j) xs)) @ rest\<rparr>)"
      using g by (subst read4_ok[where x = "xs ! j"
            and rest' = "concat (map float_bytes (drop (Suc j) xs)) @ rest"]) (simp_all add: dr)
    have ow: "?d[j := xs ! j] = take (Suc j) xs @ drop (Suc j) (data t)"
      using j l lx by (intro overwrite_next) simp_all
    show "\<exists>s'. ?body k s = Inr s' \<and> ?I (k + 1) s'"
      unfolding s' nk by (simp add: r rd4 w ow)
  qed
  then show ?thesis using l lx by (auto simp: read_def)
qed

text \<open>
  Claim C10: \<^verbatim>\<open>save\<close> appends to a good stream the \<open>len\<close> elements of the buffer as
  consecutive four-byte floats in buffer order and nothing else (no header); \<^verbatim>\<open>read\<close>
  into a tensor of identical shape, from a good stream that holds this byte sequence next,
  consumes exactly these bytes and leaves the tensor with the original elements, bit for
  bit.
\<close>

theorem save_read_roundtrip:
  assumes "wf t" and "wf t'"
    and "height t' = height t" and "width t' = width t" and "batch t' = batch t"
  shows "save t \<lparr>o_good = True, o_bytes = pre\<rparr> =
           Inr \<lparr>o_good = True, o_bytes = pre @ concat (map float_bytes (data t))\<rparr> \<and>
         length (concat (map float_bytes (data t))) = 4 * nat (len t) \<and>
         read t' \<lparr>i_good = True, i_bytes = concat (map float_bytes (data t)) @ rest\<rparr> =
           Inr (t'\<lparr>data := data t\<rparr>, \<lparr>i_good = True, i_bytes = rest\<rparr>)"
proof -
  have l: "length (data t) = nat (len t)" by (rule wf_length[OF assms(1)])
  have same: "len t' = len t" using assms by (simp add: wf_def)
  have s: "save t \<lparr>o_good = True, o_bytes = pre\<rparr> =
           Inr \<lparr>o_good = True, o_bytes = pre @ concat (map float_bytes (data t))\<rparr>"
    using save_writes[OF assms(1), of "\<lparr>o_good = True, o_bytes = pre\<rparr>"] by simp
  have r: "read t' \<lparr>i_good = True, i_bytes = concat (map float_bytes (data t)) @ rest\<rparr> =
           Inr (t'\<lparr>data := data t\<rparr>, \<lparr>i_good = True, i_bytes = rest\<rparr>)"
    using read_consumes[OF assms(2), of
        "\<lparr>i_good = True, i_bytes = concat (map float_bytes (data t)) @ rest\<rparr>" "data t" rest]
      l same by simp
  show ?thesis using s r l by (simp add: length_concat_float_bytes)
qed

theorem save_read_roundtrip_witness:
  "wf W3 \<and> wf Z3 \<and> height Z3 = height W3 \<and> width Z3 = width W3 \<and> batch Z3 = batch W3 \<and>
   save W3 \<lparr>o_good = True, o_bytes = []\<rparr> =
     Inr \<lparr>o_good = True, o_bytes = [0, 0, 128, 63, 0, 0, 0, 192, 1, 0, 192, 127]\<rparr> \<and>
   read Z3 \<lparr>i_good = True, i_bytes = [0, 0, 128, 63, 0, 0, 0, 192, 1, 0, 192, 127, 5]\<rparr> =
     Inr (W3, \<lparr>i_good = True, i_bytes = [5]\<rparr>)"
proof -
  have h: "wf W3" "wf Z3" "height Z3 = height W3" "width Z3 = width W3" "batch Z3 = batch W3"
    by (simp_all add: wf_def W3_def Z3_def)
  have b: "concat (map float_bytes (data W3)) = [0, 0, 128, 63, 0, 0, 0, 192, 1, 0, 192, 127]"
    by code_simp
  have z: "Z3\<lparr>data := data W3\<rparr> = W3" by (simp add: W3_def Z3_def)
  show ?thesis
    using h save_read_roundtrip[OF h, of "[]" "[5]"] by (simp add: b z)
qed

subsection \<open>Softmax\<close>































subsection \<open>The two backends\<close>

text \<open>
  Claim C4 asks that the BLAS path and the fallback path of every operation agree up to
  rounding. They do not: on the \<open>(1, 1, 2)\<close> tensor \<open>[1, 2]\<close>, scalar add of \<open>1\<close> gives
  \<open>[2, 3]\<close> with BLAS and \<open>[2, 0]\<close> without, because the fallback loop stops at \<open>batch\<close>
  instead of \<open>len\<close>; and on the \<open>(1, 1, 1)\<close> tensor \<open>[-1]\<close> the batch-wise sum gives \<open>[1]\<close> with
  BLAS (\<^verbatim>\<open>cblas_sasum\<close> adds absolute values) and \<open>[-1]\<close> without.
\<close>

theorem backends_disagree:
  "add_value True T112 1 =
     Inr \<lparr>height = 1, width = 2, batch = 1, dim = 3, len = 2, data = [2, 3]\<rparr> \<and>
   add_value False T112 1 =
     Inr \<lparr>height = 1, width = 2, batch = 1, dim = 3, len = 2, data = [2, 0]\<rparr> \<and>
   sum_batch True T111 =
     Inr \<lparr>height = 1, width = 1, batch = 1, dim = 3, len = 1, data = [1]\<rparr> \<and>
   sum_batch False T111 =
     Inr \<lparr>height = 1, width = 1, batch = 1, dim = 3, len = 1, data = [- 1]\<rparr>"
  by code_simp

subsection \<open>Buffer bounds\<close>

text \<open>
  Claim C6 asks that elementwise divide of two tensors of equal shape and the batch-wise
  sum stay inside their buffers. Dividing the \<open>(1, 1, 3)\<close> tensor \<open>[1, 2, 4]\<close> by itself
  reads index \<open>-1\<close> (the tail loop starts at \<open>i - 1\<close> with \<open>i = 0\<close>), and the fallback sum of
  the \<open>(2, 1, 2)\<close> tensor \<open>[1, 2, 3, 4]\<close> writes index \<open>2\<close> of a result of two elements.
\<close>

theorem divide_and_sum_out_of_range:
  "divide_Tensor T113 T113 = Inl OutOfRange \<and> sum_batch False T212 = Inl OutOfRange"
  by code_simp

subsection \<open>The concrete scenario\<close>

text \<open>
  Claim C9: the \<open>(2, 1, 3)\<close> tensor \<open>[[1, 2, 3], [4, 5, 6]]\<close> divided by \<open>2\<close> is
  \<open>[[0.5, 1, 1.5], [2, 2.5, 3]]\<close> on both backends; its batch-wise sum is \<open>[6, 15]\<close> on the
  BLAS path, and runs out of the result's buffer on the fallback path.
\<close>

theorem scenario_divide_sum:
  "divide_value False T213 2 =
     Inr \<lparr>height = 1, width = 3, batch = 2, dim = 3, len = 6, data = [1/2, 1, 3/2, 2, 5/2, 3]\<rparr> \<and>
   divide_value True T213 2 =
     Inr \<lparr>height = 1, width = 3, batch = 2, dim = 3, len = 6, data = [1/2, 1, 3/2, 2, 5/2, 3]\<rparr> \<and>
   sum_batch True T213 =
     Inr \<lparr>height = 1, width = 1, batch = 2, dim = 3, len = 2, data = [6, 15]\<rparr> \<and>
   sum_batch False T213 = Inl OutOfRange"
  by code_simp

end
